theory Spec2Isabelle
  imports Main "HOL-Library.Multiset" "HOL-Library.Option_ord"
begin

section \<open>IceVision backend: sessions and consumption reconciliation\<close>

text \<open>
  A shallow embedding of \<^verbatim>\<open>src/main.py\<close>: the endpoints \<^verbatim>\<open>session_start\<close>,
  \<^verbatim>\<open>session_close\<close> and \<^verbatim>\<open>sessions_list\<close>, over the tables they read and write.

  Modelling decisions.
  \<^item> A table is the list of its rows, in storage order. The database is a record of
    the four tables the three endpoints touch.
  \<^item> A column that the endpoints compute with is given the Python type it is computed
    at: \<^verbatim>\<open>VisionItem.quantity\<close> is an unbounded \<open>int\<close>, labels and codes are
    strings. Columns the endpoints only copy and that are nullable in the schema
    (\<^verbatim>\<open>opened_at\<close>, \<^verbatim>\<open>closed_at\<close>, the capture ids, \<^verbatim>\<open>notes\<close>) are options.
    A vision item without a label or a quantity (\<^verbatim>\<open>NULL\<close>) is outside the model, and so
    is the range of the integer columns: a quantity is any integer, of either sign.
  \<^item> A comparison in a query (\<^verbatim>\<open>Employee.employee_code == code\<close>) is equality of the
    two values.
  \<^item> \<^verbatim>\<open>now()\<close> reads the wall clock. An endpoint receives the readings of the clock
    as a function \<open>clk\<close>: \<open>clk k\<close> is what the \<open>k\<close>-th call of \<^verbatim>\<open>now()\<close> inside the
    request returns (counting from 0).
  \<^item> \<^verbatim>\<open>raise HTTPException(404, ...)\<close> is the value \<open>Inl\<close> of an error; every
    endpoint returns the database together with its result, and the database
    returned with an error is the one the request started from (nothing has been
    added to the unit of work when the exception leaves the function).
  \<^item> An \<^verbatim>\<open>AUTO_INCREMENT\<close> primary key is the successor of the largest key in the
    table, and at least 1.
\<close>

subsection \<open>Tables\<close>

type_synonym datetime = int

record employee =
  emp_id :: int
  emp_employee_code :: string
  emp_name :: string
  emp_email :: "string option"
  emp_department :: "string option"
  emp_face_photo_url :: "string option"
  emp_face_photo_key :: "string option"
  emp_face_descriptor :: "string option"
  emp_is_active :: bool
  emp_created_at :: "datetime option"
  emp_updated_at :: "datetime option"

record fridge_session =
  fs_id :: int
  fs_employee_id :: int
  fs_device_id :: string
  fs_opened_at :: "datetime option"
  fs_closed_at :: "datetime option"
  fs_capture_before_id :: "int option"
  fs_capture_after_id :: "int option"
  fs_status :: string
  fs_notes :: "string option"

record vision_item =
  vi_id :: int
  vi_capture_id :: int
  vi_label :: string
  vi_quantity :: int

record consumption_event =
  ce_id :: int
  ce_session_id :: int
  ce_employee_id :: int
  ce_product_label :: string
  ce_quantity :: int
  ce_created_at :: "datetime option"

record db =
  employees :: "employee list"
  fridge_sessions :: "fridge_session list"
  vision_items :: "vision_item list"
  consumption_events :: "consumption_event list"

subsection \<open>Requests, responses, errors\<close>

record session_start_request =
  employee_code :: string
  device_id :: string

record employee_out =
  eo_id :: int
  eo_employee_code :: string
  eo_name :: string
  eo_email :: "string option"
  eo_department :: "string option"
  eo_face_photo_url :: "string option"
  eo_face_descriptor :: "string option"

record session_start_response =
  ssr_success :: bool
  ssr_session_id :: int
  ssr_employee :: employee_out

record session_close_request =
  session_id :: int
  capture_before_id :: "int option"
  capture_after_id :: "int option"

text \<open>One element of the \<^verbatim>\<open>consumed\<close> list: \<^verbatim>\<open>{"label": label, "quantity": delta}\<close>.\<close>

record consumed_entry =
  label :: string
  quantity :: int

record session_close_response =
  scr_success :: bool
  scr_session_id :: int
  consumed :: "consumed_entry list"

record session_list_item =
  li_id :: int
  li_employee_id :: int
  li_employee_code :: string
  li_employee_name :: string
  li_device_id :: string
  li_opened_at :: "datetime option"
  li_closed_at :: "datetime option"
  li_capture_before_id :: "int option"
  li_capture_after_id :: "int option"
  li_status :: string
  li_notes :: "string option"

text \<open>
  The two \<^verbatim>\<open>HTTPException(status_code=404)\<close> of the session endpoints, told apart
  by their detail message.
\<close>

datatype error = EmployeeNotFound | SessionNotFound

subsection \<open>Python and database primitives\<close>

text \<open>Truth value of an \<^verbatim>\<open>Optional[int]\<close>: \<^verbatim>\<open>None\<close> and \<^verbatim>\<open>0\<close> are false.\<close>

fun truthy_int :: "int option \<Rightarrow> bool" where
  "truthy_int None = False"
| "truthy_int (Some n) = (n \<noteq> 0)"

text \<open>Truth value of an \<^verbatim>\<open>Optional[str]\<close>: \<^verbatim>\<open>None\<close> and the empty string are false.\<close>

fun truthy_str :: "string option \<Rightarrow> bool" where
  "truthy_str None = False"
| "truthy_str (Some s) = (s \<noteq> [])"

text \<open>
  A Python \<^verbatim>\<open>dict\<close> as the list of its items in insertion order, keys distinct.
  \<^verbatim>\<open>d[k] = v\<close> overwrites the value of a key that is there and leaves it in its
  place, and appends a new key.
\<close>

type_synonym ('k, 'v) py_dict = "('k \<times> 'v) list"

fun dict_set :: "'k \<Rightarrow> 'v \<Rightarrow> ('k, 'v) py_dict \<Rightarrow> ('k, 'v) py_dict" where
  "dict_set k v [] = [(k, v)]"
| "dict_set k v ((k', v') # d) =
     (if k' = k then (k', v) # d else (k', v') # dict_set k v d)"

text \<open>\<^verbatim>\<open>d.get(k, default)\<close>.\<close>

fun dict_get :: "('k, 'v) py_dict \<Rightarrow> 'k \<Rightarrow> 'v \<Rightarrow> 'v" where
  "dict_get [] k dflt = dflt"
| "dict_get ((k', v') # d) k dflt = (if k' = k then v' else dict_get d k dflt)"

text \<open>\<^verbatim>\<open>k in d\<close>.\<close>

definition dict_has :: "('k, 'v) py_dict \<Rightarrow> 'k \<Rightarrow> bool" where
  "dict_has d k = (k \<in> set (map fst d))"

text \<open>
  \<^verbatim>\<open>{i.label: i.quantity for i in db.query(VisionItem).filter(VisionItem.capture_id == c).all()}\<close>:
  the rows of the capture, each stored into the dictionary in turn.
\<close>

definition capture_items :: "vision_item list \<Rightarrow> int \<Rightarrow> (string, int) py_dict" where
  "capture_items rows c =
     foldl (\<lambda>d i. dict_set (vi_label i) (vi_quantity i) d) []
       (filter (\<lambda>i. vi_capture_id i = c) rows)"

text \<open>The key \<^verbatim>\<open>AUTO_INCREMENT\<close> gives the next row of a table with the keys \<open>ks\<close>.\<close>

definition next_id :: "int list \<Rightarrow> int" where
  "next_id ks = foldr max ks 0 + 1"

subsection \<open>\<^verbatim>\<open>session_start\<close>\<close>

definition employee_out_from_orm :: "employee \<Rightarrow> employee_out" where
  "employee_out_from_orm e =
     \<lparr>eo_id = emp_id e, eo_employee_code = emp_employee_code e, eo_name = emp_name e,
      eo_email = emp_email e, eo_department = emp_department e,
      eo_face_photo_url = emp_face_photo_url e,
      eo_face_descriptor = emp_face_descriptor e\<rparr>"

definition session_start ::
  "db \<Rightarrow> (nat \<Rightarrow> datetime) \<Rightarrow> session_start_request
     \<Rightarrow> db \<times> (error + session_start_response)" where
  "session_start d clk payload =
     (case find (\<lambda>e. emp_employee_code e = employee_code payload) (employees d) of
        None \<Rightarrow> (d, Inl EmployeeNotFound)
      | Some emp \<Rightarrow>
          let session =
                \<lparr>fs_id = next_id (map fs_id (fridge_sessions d)),
                 fs_employee_id = emp_id emp,
                 fs_device_id = device_id payload,
                 fs_opened_at = Some (clk 0),
                 fs_closed_at = None,
                 fs_capture_before_id = None,
                 fs_capture_after_id = None,
                 fs_status = ''open'',
                 fs_notes = None\<rparr>
          in (d\<lparr>fridge_sessions := fridge_sessions d @ [session]\<rparr>,
              Inr \<lparr>ssr_success = True, ssr_session_id = fs_id session,
                   ssr_employee = employee_out_from_orm emp\<rparr>))"

subsection \<open>\<^verbatim>\<open>session_close\<close>\<close>

text \<open>
  The loop over \<^verbatim>\<open>before_items.items()\<close>, with the two things it grows: the list
  \<^verbatim>\<open>consumed\<close> and the events handed to \<^verbatim>\<open>db.add\<close>. The events are inserted at
  commit in the order they were added, so the event added after \<open>n\<close> others gets the
  key \<open>base + n\<close>, where \<open>base\<close> is the next key of the table. The first reading of
  the clock is \<^verbatim>\<open>closed_at\<close>; the event added after \<open>n\<close> others takes reading \<open>n + 1\<close>.
\<close>

fun reconcile ::
  "fridge_session \<Rightarrow> (nat \<Rightarrow> datetime) \<Rightarrow> int \<Rightarrow> (string, int) py_dict
     \<Rightarrow> (string \<times> int) list
     \<Rightarrow> consumed_entry list \<times> consumption_event list
     \<Rightarrow> consumed_entry list \<times> consumption_event list" where
  "reconcile session clk base after_items [] (cons, added) = (cons, added)"
| "reconcile session clk base after_items ((lbl, qty_before) # rest) (cons, added) =
     (let qty_after = dict_get after_items lbl 0;
          delta = qty_before - qty_after
      in if delta > 0
         then reconcile session clk base after_items rest
                (cons @ [\<lparr>label = lbl, quantity = delta\<rparr>],
                 added @ [\<lparr>ce_id = base + int (length added),
                           ce_session_id = fs_id session,
                           ce_employee_id = fs_employee_id session,
                           ce_product_label = lbl,
                           ce_quantity = delta,
                           ce_created_at = Some (clk (Suc (length added)))\<rparr>])
         else reconcile session clk base after_items rest (cons, added))"

text \<open>
  The four assignments to the loaded session. At commit they reach the table as
  \<^verbatim>\<open>UPDATE fridge_sessions SET closed_at, capture_before_id, capture_after_id, status
  WHERE id = session.id\<close>.
\<close>

definition close_fields ::
  "(nat \<Rightarrow> datetime) \<Rightarrow> session_close_request \<Rightarrow> fridge_session \<Rightarrow> fridge_session" where
  "close_fields clk payload s =
     s\<lparr>fs_closed_at := Some (clk 0),
       fs_capture_before_id := capture_before_id payload,
       fs_capture_after_id := capture_after_id payload,
       fs_status := ''closed''\<rparr>"

definition update_session ::
  "int \<Rightarrow> (fridge_session \<Rightarrow> fridge_session) \<Rightarrow> fridge_session list \<Rightarrow> fridge_session list" where
  "update_session sid f rows = map (\<lambda>r. if fs_id r = sid then f r else r) rows"

text \<open>
  What the body of \<^verbatim>\<open>if payload.capture_before_id and payload.capture_after_id\<close>
  computes, and the empty lists when the condition is false.
\<close>

definition engine ::
  "db \<Rightarrow> (nat \<Rightarrow> datetime) \<Rightarrow> session_close_request \<Rightarrow> fridge_session
     \<Rightarrow> consumed_entry list \<times> consumption_event list" where
  "engine d clk payload session =
     (if truthy_int (capture_before_id payload) \<and> truthy_int (capture_after_id payload)
      then
        (case (capture_before_id payload, capture_after_id payload) of
           (Some b, Some a) \<Rightarrow>
             let before_items = capture_items (vision_items d) b;
                 after_items = capture_items (vision_items d) a
             in reconcile session clk (next_id (map ce_id (consumption_events d)))
                  after_items before_items ([], [])
         | _ \<Rightarrow> ([], []))
      else ([], []))"

definition session_close ::
  "db \<Rightarrow> (nat \<Rightarrow> datetime) \<Rightarrow> session_close_request
     \<Rightarrow> db \<times> (error + session_close_response)" where
  "session_close d clk payload =
     (case find (\<lambda>s. fs_id s = session_id payload) (fridge_sessions d) of
        None \<Rightarrow> (d, Inl SessionNotFound)
      | Some loaded \<Rightarrow>
          let session = close_fields clk payload loaded;
              (cons, added) = engine d clk payload session
          in (d\<lparr>fridge_sessions :=
                   update_session (fs_id session) (close_fields clk payload) (fridge_sessions d),
                 consumption_events := consumption_events d @ added\<rparr>,
              Inr \<lparr>scr_success = True, scr_session_id = fs_id session, consumed = cons\<rparr>))"

subsection \<open>\<^verbatim>\<open>sessions_list\<close>\<close>

text \<open>
  \<^verbatim>\<open>ORDER BY key DESC\<close>, as a stable insertion sort. With the order of
  \<open>HOL-Library.Option_ord\<close> a missing \<^verbatim>\<open>opened_at\<close> is below every time, so it
  comes last, as MySQL places \<^verbatim>\<open>NULL\<close> in a descending order.
\<close>

fun insort_desc :: "('a \<Rightarrow> 'k::linorder) \<Rightarrow> 'a \<Rightarrow> 'a list \<Rightarrow> 'a list" where
  "insort_desc f x [] = [x]"
| "insort_desc f x (y # ys) =
     (if f y \<le> f x then x # y # ys else y # insort_desc f x ys)"

definition order_by_desc :: "('a \<Rightarrow> 'k::linorder) \<Rightarrow> 'a list \<Rightarrow> 'a list" where
  "order_by_desc f xs = foldr (insort_desc f) xs []"

text \<open>
  \<^verbatim>\<open>db.query(FridgeSession, Employee.employee_code, Employee.name).join(Employee,
  FridgeSession.employee_id == Employee.id)\<close>: the inner join.
\<close>

definition joined :: "db \<Rightarrow> (fridge_session \<times> string \<times> string) list" where
  "joined d =
     concat (map (\<lambda>s. map (\<lambda>e. (s, emp_employee_code e, emp_name e))
                        (filter (\<lambda>e. fs_employee_id s = emp_id e) (employees d)))
                 (fridge_sessions d))"

definition list_item :: "fridge_session \<times> string \<times> string \<Rightarrow> session_list_item" where
  "list_item row =
     (case row of (s, code, emp_name') \<Rightarrow>
        \<lparr>li_id = fs_id s, li_employee_id = fs_employee_id s,
         li_employee_code = code, li_employee_name = emp_name',
         li_device_id = fs_device_id s, li_opened_at = fs_opened_at s,
         li_closed_at = fs_closed_at s,
         li_capture_before_id = fs_capture_before_id s,
         li_capture_after_id = fs_capture_after_id s,
         li_status = fs_status s, li_notes = fs_notes s\<rparr>)"

definition sessions_list :: "db \<Rightarrow> string option \<Rightarrow> session_list_item list" where
  "sessions_list d code =
     (let q = joined d;
          q = (if truthy_str code
               then filter (\<lambda>(s, c, n). Some c = code) q
               else q);
          rows = order_by_desc (\<lambda>(s, c, n). fs_opened_at s) q
      in map list_item rows)"

subsection \<open>Sequences of requests\<close>

text \<open>A request of the session registry, with the clock readings it will see.\<close>

datatype request =
  Start "nat \<Rightarrow> datetime" session_start_request
| Close "nat \<Rightarrow> datetime" session_close_request

fun handle :: "db \<Rightarrow> request \<Rightarrow> db" where
  "handle d (Start clk payload) = fst (session_start d clk payload)"
| "handle d (Close clk payload) = fst (session_close d clk payload)"

definition serve :: "db \<Rightarrow> request list \<Rightarrow> db" where
  "serve d reqs = foldl handle d reqs"

text \<open>The session ids of the close requests of a sequence, in order.\<close>

fun close_ids :: "request list \<Rightarrow> int list" where
  "close_ids [] = []"
| "close_ids (Start clk payload # reqs) = close_ids reqs"
| "close_ids (Close clk payload # reqs) = session_id payload # close_ids reqs"

subsection \<open>Notions the properties are stated with\<close>

text \<open>The events a request appended to the ledger: the rows after the old ones.\<close>

definition appended :: "db \<Rightarrow> db \<Rightarrow> consumption_event list" where
  "appended d d' = drop (length (consumption_events d)) (consumption_events d')"

text \<open>The ledger queried by session and label.\<close>

definition ledger_entries :: "db \<Rightarrow> int \<Rightarrow> string \<Rightarrow> consumption_event list" where
  "ledger_entries d sid l =
     filter (\<lambda>e. ce_session_id e = sid \<and> ce_product_label e = l) (consumption_events d)"

text \<open>The entries of a \<^verbatim>\<open>consumed\<close> list for one label.\<close>

definition entries_for :: "string \<Rightarrow> consumed_entry list \<Rightarrow> consumed_entry list" where
  "entries_for l cs = filter (\<lambda>c. label c = l) cs"

definition events_for :: "string \<Rightarrow> consumption_event list \<Rightarrow> consumption_event list" where
  "events_for l es = filter (\<lambda>e. ce_product_label e = l) es"

text \<open>
  The snapshots of a close request: the dictionary of the capture when the request
  names one, the empty dictionary when it names none.
\<close>

definition before_snapshot :: "db \<Rightarrow> session_close_request \<Rightarrow> (string, int) py_dict" where
  "before_snapshot d p =
     (case capture_before_id p of None \<Rightarrow> [] | Some b \<Rightarrow> capture_items (vision_items d) b)"

definition after_snapshot :: "db \<Rightarrow> session_close_request \<Rightarrow> (string, int) py_dict" where
  "after_snapshot d p =
     (case capture_after_id p of None \<Rightarrow> [] | Some a \<Rightarrow> capture_items (vision_items d) a)"

text \<open>A capture id that selects no row of \<^verbatim>\<open>vision_items\<close>.\<close>

definition no_rows :: "db \<Rightarrow> int \<Rightarrow> bool" where
  "no_rows d c = (filter (\<lambda>i. vi_capture_id i = c) (vision_items d) = [])"

text \<open>
  The reconciliation as the specification words it: for every label of the
  before-snapshot, in its order, the before quantity minus the after quantity (0 when the
  label is not in the after-snapshot), kept when it is positive.
\<close>

definition positive_deltas ::
  "(string, int) py_dict \<Rightarrow> (string \<times> int) list \<Rightarrow> (string \<times> int) list" where
  "positive_deltas after_items items =
     filter (\<lambda>(l, dq). 0 < dq) (map (\<lambda>(l, q). (l, q - dict_get after_items l 0)) items)"

definition entry_of :: "string \<times> int \<Rightarrow> consumed_entry" where
  "entry_of x = \<lparr>label = fst x, quantity = snd x\<rparr>"

definition event_of ::
  "fridge_session \<Rightarrow> (nat \<Rightarrow> datetime) \<Rightarrow> int \<Rightarrow> nat \<times> string \<times> int
     \<Rightarrow> consumption_event" where
  "event_of session clk base x =
     \<lparr>ce_id = base + int (fst x), ce_session_id = fs_id session,
      ce_employee_id = fs_employee_id session, ce_product_label = fst (snd x),
      ce_quantity = snd (snd x), ce_created_at = Some (clk (Suc (fst x)))\<rparr>"

text \<open>Whether \<^verbatim>\<open>sessions_list\<close> keeps a session for the argument it was given.\<close>

definition keeps :: "db \<Rightarrow> string option \<Rightarrow> fridge_session \<Rightarrow> bool" where
  "keeps d code s =
     (if truthy_str code
      then list_ex (\<lambda>e. emp_id e = fs_employee_id s \<and> Some (emp_employee_code e) = code)
             (employees d)
      else True)"

subsection \<open>A small database for concrete runs\<close>

definition tick :: "nat \<Rightarrow> datetime" where
  "tick k = 1000 + int k"

definition alice :: employee where
  "alice = \<lparr>emp_id = 1, emp_employee_code = ''E1'', emp_name = ''Alice'',
     emp_email = None, emp_department = None, emp_face_photo_url = None,
     emp_face_photo_key = None, emp_face_descriptor = Some ''0.1,0.2'',
     emp_is_active = True, emp_created_at = Some 1, emp_updated_at = Some 1\<rparr>"

definition bob :: employee where
  "bob = \<lparr>emp_id = 2, emp_employee_code = ''E2'', emp_name = ''Bob'',
     emp_email = None, emp_department = None, emp_face_photo_url = None,
     emp_face_photo_key = None, emp_face_descriptor = Some ''0.3,0.4'',
     emp_is_active = True, emp_created_at = Some 2, emp_updated_at = Some 2\<rparr>"

definition open_session :: fridge_session where
  "open_session = \<lparr>fs_id = 1, fs_employee_id = 1, fs_device_id = ''fridge-1'',
     fs_opened_at = Some 10, fs_closed_at = None, fs_capture_before_id = None,
     fs_capture_after_id = None, fs_status = ''open'', fs_notes = None\<rparr>"

definition closed_session :: fridge_session where
  "closed_session = \<lparr>fs_id = 2, fs_employee_id = 2, fs_device_id = ''fridge-1'',
     fs_opened_at = Some 20, fs_closed_at = Some 30, fs_capture_before_id = Some 6,
     fs_capture_after_id = Some 9, fs_status = ''closed'', fs_notes = Some ''lunch''\<rparr>"

definition item :: "int \<Rightarrow> int \<Rightarrow> string \<Rightarrow> int \<Rightarrow> vision_item" where
  "item i c l q = \<lparr>vi_id = i, vi_capture_id = c, vi_label = l, vi_quantity = q\<rparr>"

text \<open>
  Capture 4 holds milk twice (the later row, 5, is the one the dictionary keeps) and
  soda 2; capture 5 holds milk 3 and juice 9; capture 6 holds milk 5 and soda 0;
  capture 0 holds milk 8; capture 7 holds the negative quantities milk -2 and soda -5;
  no row has capture 9.
\<close>

definition fridge_db :: db where
  "fridge_db = \<lparr>employees = [alice, bob],
     fridge_sessions = [open_session, closed_session],
     vision_items =
       [item 1 4 ''milk'' 4, item 2 4 ''soda'' 2, item 3 4 ''milk'' 5,
        item 4 5 ''milk'' 3, item 5 5 ''juice'' 9,
        item 6 6 ''milk'' 5, item 7 6 ''soda'' 0,
        item 8 0 ''milk'' 8,
        item 9 7 ''milk'' (- 2), item 10 7 ''soda'' (- 5)],
     consumption_events =
       [\<lparr>ce_id = 1, ce_session_id = 2, ce_employee_id = 2, ce_product_label = ''milk'',
         ce_quantity = 5, ce_created_at = Some 31\<rparr>]\<rparr>"

definition close_req :: "int \<Rightarrow> int option \<Rightarrow> int option \<Rightarrow> session_close_request" where
  "close_req sid b a = \<lparr>session_id = sid, capture_before_id = b, capture_after_id = a\<rparr>"

definition start_req :: "string \<Rightarrow> string \<Rightarrow> session_start_request" where
  "start_req code dev = \<lparr>employee_code = code, device_id = dev\<rparr>"

section \<open>Auxiliary facts\<close>

subsection \<open>The loop and the dictionaries\<close>

lemma positive_deltas_Nil: "positive_deltas A [] = []"
  by (simp add: positive_deltas_def)

lemma positive_deltas_Cons:
  "positive_deltas A ((l, q) # items) =
     (if 0 < q - dict_get A l 0 then (l, q - dict_get A l 0) # positive_deltas A items
      else positive_deltas A items)"
  by (simp add: positive_deltas_def)

lemma reconcile_eq:
  "reconcile s clk base A items (cons, added) =
     (cons @ map entry_of (positive_deltas A items),
      added @ map (event_of s clk base) (enumerate (length added) (positive_deltas A items)))"
proof (induction items arbitrary: cons added)
  case Nil
  show ?case by (simp add: positive_deltas_Nil)
next
  case (Cons x items)
  obtain l q where x: "x = (l, q)" by (cases x)
  show ?case
    unfolding x
    by (simp add: Cons.IH positive_deltas_Cons Let_def entry_of_def event_of_def)
qed

lemma keys_dict_set: "fst ` set (dict_set k v d) = insert k (fst ` set d)"
proof (induction d)
  case Nil
  show ?case by simp
next
  case (Cons x d)
  obtain k' v' where x: "x = (k', v')" by (cases x)
  show ?case
  proof (cases "k' = k")
    case True
    then show ?thesis unfolding x by auto
  next
    case False
    then show ?thesis unfolding x using Cons.IH by auto
  qed
qed

lemma distinct_dict_set: "distinct (map fst d) \<Longrightarrow> distinct (map fst (dict_set k v d))"
proof (induction d)
  case Nil
  show ?case by simp
next
  case (Cons x d)
  obtain k' v' where x: "x = (k', v')" by (cases x)
  from Cons show ?case
    unfolding x using keys_dict_set[of k v d] by auto
qed

lemma foldl_dict_set_distinct:
  "distinct (map fst d) \<Longrightarrow>
   distinct (map fst (foldl (\<lambda>d i. dict_set (kf i) (vf i) d) d rows))"
  by (induction rows arbitrary: d) (simp_all add: distinct_dict_set)

lemma foldl_dict_set_keys:
  "fst ` set (foldl (\<lambda>d i. dict_set (kf i) (vf i) d) d rows) = fst ` set d \<union> kf ` set rows"
  by (induction rows arbitrary: d) (auto simp: keys_dict_set)

lemma distinct_capture_items: "distinct (map fst (capture_items rows c))"
  unfolding capture_items_def by (rule foldl_dict_set_distinct) simp

lemma keys_capture_items:
  "fst ` set (capture_items rows c) = vi_label ` {i \<in> set rows. vi_capture_id i = c}"
  unfolding capture_items_def by (simp add: foldl_dict_set_keys)

lemma dict_get_map_of:
  "dict_get d k dflt = (case map_of d k of None \<Rightarrow> dflt | Some v \<Rightarrow> v)"
  by (induction d) auto

lemma dict_get_member:
  "distinct (map fst d) \<Longrightarrow> (k, v) \<in> set d \<Longrightarrow> dict_get d k dflt = v"
  by (induction d) (auto simp: image_iff)

lemma dict_has_get:
  "dict_has d k \<Longrightarrow> (k, dict_get d k dflt) \<in> set d"
  unfolding dict_has_def
proof (induction d)
  case Nil
  then show ?case by simp
next
  case (Cons x d)
  obtain k' v' where x: "x = (k', v')" by (cases x)
  show ?case
  proof (cases "k' = k")
    case True
    then show ?thesis unfolding x by simp
  next
    case False
    with Cons.prems have "k \<in> set (map fst d)" unfolding x by auto
    then have "(k, dict_get d k dflt) \<in> set d" by (rule Cons.IH)
    with False show ?thesis unfolding x by simp
  qed
qed

lemma filter_key_distinct:
  "distinct (map fst d) \<Longrightarrow> (k, v) \<in> set d \<Longrightarrow> filter (\<lambda>x. fst x = k) d = [(k, v)]"
proof (induction d)
  case Nil
  then show ?case by simp
next
  case (Cons x d)
  show ?case
  proof (cases "fst x = k")
    case True
    with Cons.prems have "x = (k, v)" by (cases x) (auto simp: image_iff)
    moreover from Cons.prems True have "filter (\<lambda>x. fst x = k) d = []"
      by (auto simp: filter_empty_conv image_iff)
    ultimately show ?thesis by simp
  next
    case False
    with Cons show ?thesis by auto
  qed
qed

lemma filter_positive_deltas:
  "filter (\<lambda>x. fst x = k) (positive_deltas A items) =
     positive_deltas A (filter (\<lambda>x. fst x = k) items)"
  unfolding positive_deltas_def
  by (induction items) (auto)

lemma positive_deltas_at:
  assumes "distinct (map fst B)" "dict_has B k"
  shows "filter (\<lambda>x. fst x = k) (positive_deltas A B) =
           (if dict_get A k 0 < dict_get B k 0 then [(k, dict_get B k 0 - dict_get A k 0)] else [])"
proof -
  from assms have "filter (\<lambda>x. fst x = k) B = [(k, dict_get B k 0)]"
    by (intro filter_key_distinct dict_has_get)
  then show ?thesis
    by (simp add: filter_positive_deltas positive_deltas_Cons positive_deltas_Nil)
qed

subsection \<open>The close request\<close>

lemma fs_id_close_fields: "fs_id (close_fields clk p s) = fs_id s"
  by (simp add: close_fields_def)

lemma fs_employee_id_close_fields: "fs_employee_id (close_fields clk p s) = fs_employee_id s"
  by (simp add: close_fields_def)

lemma find_session_id:
  "find (\<lambda>s. fs_id s = sid) rows = Some s0 \<Longrightarrow> fs_id s0 = sid \<and> s0 \<in> set rows"
  by (induction rows) (auto split: if_splits)

lemma find_session_None:
  "(find (\<lambda>s. fs_id s = sid) rows = None) = (sid \<notin> fs_id ` set rows)"
  by (induction rows) auto

lemma session_close_missing:
  assumes "find (\<lambda>s. fs_id s = session_id p) (fridge_sessions d) = None"
  shows "session_close d clk p = (d, Inl SessionNotFound)"
  unfolding session_close_def by (simp only: assms option.case)

lemma session_close_found:
  assumes "find (\<lambda>s. fs_id s = session_id p) (fridge_sessions d) = Some s0"
  shows "session_close d clk p =
    (d\<lparr>fridge_sessions :=
         update_session (session_id p) (close_fields clk p) (fridge_sessions d),
       consumption_events :=
         consumption_events d @ snd (engine d clk p (close_fields clk p s0))\<rparr>,
     Inr \<lparr>scr_success = True, scr_session_id = session_id p,
          consumed = fst (engine d clk p (close_fields clk p s0))\<rparr>)"
proof -
  have id: "fs_id s0 = session_id p" using find_session_id[OF assms] by blast
  obtain cons added where e: "engine d clk p (close_fields clk p s0) = (cons, added)"
    by (cases "engine d clk p (close_fields clk p s0)")
  show ?thesis
    unfolding session_close_def
    by (simp only: assms option.case Let_def e prod.case fst_conv snd_conv
        fs_id_close_fields id)
qed

lemma session_close_Inr:
  assumes "session_close d clk p = (d', Inr r)"
  obtains s0 where "find (\<lambda>s. fs_id s = session_id p) (fridge_sessions d) = Some s0"
proof (cases "find (\<lambda>s. fs_id s = session_id p) (fridge_sessions d)")
  case None
  with assms show ?thesis by (simp add: session_close_missing)
next
  case (Some s0)
  then show ?thesis by (rule that)
qed

lemma appended_found:
  assumes "find (\<lambda>s. fs_id s = session_id p) (fridge_sessions d) = Some s0"
  shows "appended d (fst (session_close d clk p)) = snd (engine d clk p (close_fields clk p s0))"
  by (simp add: session_close_found[OF assms] appended_def)

lemma engine_off:
  assumes "\<not> (truthy_int (capture_before_id p) \<and> truthy_int (capture_after_id p))"
  shows "engine d clk p s = ([], [])"
  using assms by (auto simp: engine_def)

lemma engine_on:
  assumes "capture_before_id p = Some b" "b \<noteq> 0" "capture_after_id p = Some a" "a \<noteq> 0"
  shows "engine d clk p s =
    (map entry_of (positive_deltas (capture_items (vision_items d) a)
                     (capture_items (vision_items d) b)),
     map (event_of s clk (next_id (map ce_id (consumption_events d))))
       (enumerate 0 (positive_deltas (capture_items (vision_items d) a)
                       (capture_items (vision_items d) b))))"
  using assms by (simp add: engine_def reconcile_eq Let_def)

lemma entries_for_map:
  "entries_for l (map entry_of xs) = map entry_of (filter (\<lambda>x. fst x = l) xs)"
  by (induction xs) (auto simp: entries_for_def entry_of_def)

lemma events_for_map:
  "map (\<lambda>e. (ce_product_label e, ce_quantity e))
     (events_for l (map (event_of s clk base) (enumerate n xs))) =
   filter (\<lambda>x. fst x = l) xs"
  by (induction xs arbitrary: n) (auto simp: events_for_def event_of_def)

lemma session_known:
  assumes "session_id p \<in> fs_id ` set (fridge_sessions d)"
  obtains s0 where "find (\<lambda>s. fs_id s = session_id p) (fridge_sessions d) = Some s0"
  using assms find_session_None[of "session_id p" "fridge_sessions d"] by (cases "find (\<lambda>s. fs_id s = session_id p) (fridge_sessions d)") auto

lemma close_summary:
  assumes "find (\<lambda>s. fs_id s = session_id p) (fridge_sessions d) = Some s0"
  obtains d' r where
    "session_close d clk p = (d', Inr r)"
    "consumed r = fst (engine d clk p (close_fields clk p s0))"
    "appended d d' = snd (engine d clk p (close_fields clk p s0))"
    "consumption_events d' = consumption_events d @ appended d d'"
    "fridge_sessions d' =
       update_session (session_id p) (close_fields clk p) (fridge_sessions d)"
    "employees d' = employees d" "vision_items d' = vision_items d"
    "scr_session_id r = session_id p" "scr_success r"
proof -
  let ?E = "engine d clk p (close_fields clk p s0)"
  let ?d = "d\<lparr>fridge_sessions :=
         update_session (session_id p) (close_fields clk p) (fridge_sessions d),
       consumption_events := consumption_events d @ snd ?E\<rparr>"
  let ?r = "\<lparr>scr_success = True, scr_session_id = session_id p, consumed = fst ?E\<rparr>"
  have "session_close d clk p = (?d, Inr ?r)" by (rule session_close_found[OF assms])
  moreover have "appended d ?d = snd ?E" by (simp add: appended_def)
  ultimately show ?thesis by (intro that[of ?d ?r]) simp_all
qed

lemma positive_deltas_item:
  assumes "(l, qb) \<in> set (capture_items rows b)"
  shows "filter (\<lambda>x. fst x = l) (positive_deltas A (capture_items rows b)) =
           (if dict_get A l 0 < qb then [(l, qb - dict_get A l 0)] else [])"
proof -
  have dist: "distinct (map fst (capture_items rows b))" by (rule distinct_capture_items)
  from assms have has: "dict_has (capture_items rows b) l"
    by (force simp: dict_has_def)
  from dist assms have "dict_get (capture_items rows b) l 0 = qb" by (rule dict_get_member)
  with positive_deltas_at[OF dist has, of A] show ?thesis by simp
qed

lemmas example_defs =
  fridge_db_def close_req_def start_req_def item_def alice_def bob_def
  open_session_def closed_session_def tick_def

lemmas close_defs =
  session_close_def engine_def capture_items_def close_fields_def next_id_def
  update_session_def

section \<open>The claims\<close>

subsection \<open>C1: conservation\<close>

text \<open>
  C1, as amended. Take a close request on an existing session whose two capture ids are
  present and not zero, with before-snapshot \<open>B\<close> and after-snapshot \<open>A\<close>. The request
  succeeds, and for every item \<open>(l, qb)\<close> of \<open>B\<close>: when \<open>qb > A.get(l, 0)\<close> the
  \<^verbatim>\<open>consumed\<close> list holds exactly one entry for \<open>l\<close>, of quantity \<open>qb - A.get(l, 0)\<close>,
  and the ledger receives exactly one event for \<open>l\<close>, of that quantity; otherwise neither
  holds anything for \<open>l\<close>.
\<close>

theorem close_conservation:
  assumes "session_id p \<in> fs_id ` set (fridge_sessions d)"
    and "capture_before_id p = Some b" and "b \<noteq> 0"
    and "capture_after_id p = Some a" and "a \<noteq> 0"
    and "(l, qb) \<in> set (capture_items (vision_items d) b)"
  shows "\<exists>d' r. session_close d clk p = (d', Inr r) \<and>
           entries_for l (consumed r) =
             (if dict_get (capture_items (vision_items d) a) l 0 < qb
              then [\<lparr>label = l,
                      quantity = qb - dict_get (capture_items (vision_items d) a) l 0\<rparr>]
              else []) \<and>
           map (\<lambda>e. (ce_product_label e, ce_quantity e)) (events_for l (appended d d')) =
             (if dict_get (capture_items (vision_items d) a) l 0 < qb
              then [(l, qb - dict_get (capture_items (vision_items d) a) l 0)]
              else [])"
proof -
  from assms(1) obtain s0
    where s0: "find (\<lambda>s. fs_id s = session_id p) (fridge_sessions d) = Some s0"
    by (rule session_known)
  from close_summary[OF s0, of clk] obtain d' r where
    run: "session_close d clk p = (d', Inr r)" and
    cons: "consumed r = fst (engine d clk p (close_fields clk p s0))" and
    app: "appended d d' = snd (engine d clk p (close_fields clk p s0))"
    by blast
  note on = engine_on[OF assms(2,3,4,5), of d clk "close_fields clk p s0"]
  note at = positive_deltas_item[OF assms(6), of "capture_items (vision_items d) a"]
  have "entries_for l (consumed r) =
          map entry_of (filter (\<lambda>x. fst x = l)
            (positive_deltas (capture_items (vision_items d) a)
               (capture_items (vision_items d) b)))"
    by (simp add: cons on entries_for_map)
  then have c1: "entries_for l (consumed r) =
             (if dict_get (capture_items (vision_items d) a) l 0 < qb
              then [\<lparr>label = l,
                      quantity = qb - dict_get (capture_items (vision_items d) a) l 0\<rparr>]
              else [])"
    by (simp add: at entry_of_def)
  have c2: "map (\<lambda>e. (ce_product_label e, ce_quantity e)) (events_for l (appended d d')) =
             (if dict_get (capture_items (vision_items d) a) l 0 < qb
              then [(l, qb - dict_get (capture_items (vision_items d) a) l 0)]
              else [])"
    by (simp only: app on snd_conv events_for_map at)
  from run c1 c2 show ?thesis by blast
qed

theorem close_conservation_witness:
  "session_id (close_req 1 (Some 4) (Some 5)) \<in> fs_id ` set (fridge_sessions fridge_db) \<and>
   capture_before_id (close_req 1 (Some 4) (Some 5)) = Some 4 \<and>
   capture_after_id (close_req 1 (Some 4) (Some 5)) = Some 5 \<and>
   (''milk'', 5) \<in> set (capture_items (vision_items fridge_db) 4) \<and>
   (\<exists>d' r. session_close fridge_db tick (close_req 1 (Some 4) (Some 5)) = (d', Inr r) \<and>
      entries_for ''milk'' (consumed r) = [\<lparr>label = ''milk'', quantity = 2\<rparr>] \<and>
      map (\<lambda>e. (ce_product_label e, ce_quantity e)) (events_for ''milk'' (appended fridge_db d')) =
        [(''milk'', 2)])"
proof -
  have h1: "session_id (close_req 1 (Some 4) (Some 5)) \<in> fs_id ` set (fridge_sessions fridge_db)"
    by (simp add: example_defs)
  have h2: "capture_before_id (close_req 1 (Some 4) (Some 5)) = Some 4"
    and h3: "capture_after_id (close_req 1 (Some 4) (Some 5)) = Some 5"
    by (simp_all add: example_defs)
  have h4: "(''milk'', 5) \<in> set (capture_items (vision_items fridge_db) 4)"
    by (simp add: example_defs capture_items_def)
  have a: "dict_get (capture_items (vision_items fridge_db) 5) ''milk'' 0 = 3"
    by (simp add: example_defs capture_items_def)
  from close_conservation[OF h1 h2 _ h3 _ h4, of tick] h1 h2 h3 h4 show ?thesis
    by (simp add: a)
qed

text \<open>
  C1 as it is worded fails when a capture id is present and is 0: capture 0 holds milk 8,
  capture 5 holds milk 3, and the close records nothing.
\<close>

theorem close_conservation_counterexample:
  "capture_before_id (close_req 1 (Some 0) (Some 5)) = Some 0 \<and>
   capture_after_id (close_req 1 (Some 0) (Some 5)) = Some 5 \<and>
   capture_items (vision_items fridge_db) 0 = [(''milk'', 8)] \<and>
   dict_get (capture_items (vision_items fridge_db) 5) ''milk'' 0 = 3 \<and>
   snd (session_close fridge_db tick (close_req 1 (Some 0) (Some 5))) =
     Inr \<lparr>scr_success = True, scr_session_id = 1, consumed = []\<rparr> \<and>
   appended fridge_db (fst (session_close fridge_db tick (close_req 1 (Some 0) (Some 5)))) = []"
  by (simp add: example_defs close_defs appended_def)

subsection \<open>C2: a capture without rows\<close>

lemma capture_items_no_rows: "no_rows d c \<Longrightarrow> capture_items (vision_items d) c = []"
  by (simp add: no_rows_def capture_items_def)

lemma positive_deltas_empty_after:
  "positive_deltas [] items = filter (\<lambda>x. 0 < snd x) items"
  by (induction items) (auto simp: positive_deltas_def)

lemma pairs_of_entries: "map (\<lambda>c. (label c, quantity c)) (map entry_of xs) = xs"
  by (induction xs) (simp_all add: entry_of_def)

lemma pairs_of_events:
  "map (\<lambda>e. (ce_product_label e, ce_quantity e))
     (map (event_of s clk base) (enumerate n xs)) = xs"
  by (induction xs arbitrary: n) (simp_all add: event_of_def)

lemma close_on:
  assumes "session_id p \<in> fs_id ` set (fridge_sessions d)"
    and "capture_before_id p = Some b" and "b \<noteq> 0"
    and "capture_after_id p = Some a" and "a \<noteq> 0"
  obtains d' r where
    "session_close d clk p = (d', Inr r)"
    "map (\<lambda>c. (label c, quantity c)) (consumed r) =
       positive_deltas (capture_items (vision_items d) a) (capture_items (vision_items d) b)"
    "map (\<lambda>e. (ce_product_label e, ce_quantity e)) (appended d d') =
       positive_deltas (capture_items (vision_items d) a) (capture_items (vision_items d) b)"
    "consumption_events d' = consumption_events d @ appended d d'"
    "fridge_sessions d' =
       update_session (session_id p) (close_fields clk p) (fridge_sessions d)"
proof -
  from assms(1) obtain s0
    where s0: "find (\<lambda>s. fs_id s = session_id p) (fridge_sessions d) = Some s0"
    by (rule session_known)
  from close_summary[OF s0, of clk] obtain d' r where
    run: "session_close d clk p = (d', Inr r)" and
    cons: "consumed r = fst (engine d clk p (close_fields clk p s0))" and
    app: "appended d d' = snd (engine d clk p (close_fields clk p s0))" and
    led: "consumption_events d' = consumption_events d @ appended d d'" and
    ses: "fridge_sessions d' =
       update_session (session_id p) (close_fields clk p) (fridge_sessions d)"
    by blast
  note on = engine_on[OF assms(2,3,4,5), of d clk "close_fields clk p s0"]
  have c: "map (\<lambda>c. (label c, quantity c)) (consumed r) =
       positive_deltas (capture_items (vision_items d) a) (capture_items (vision_items d) b)"
    by (simp only: cons on fst_conv pairs_of_entries)
  have e: "map (\<lambda>e. (ce_product_label e, ce_quantity e)) (appended d d') =
       positive_deltas (capture_items (vision_items d) a) (capture_items (vision_items d) b)"
    by (simp only: app on snd_conv pairs_of_events)
  from run c e led ses show ?thesis by (rule that)
qed

lemma close_off:
  assumes "session_id p \<in> fs_id ` set (fridge_sessions d)"
    and "\<not> (truthy_int (capture_before_id p) \<and> truthy_int (capture_after_id p))"
  obtains d' r where
    "session_close d clk p = (d', Inr r)"
    "consumed r = []" "appended d d' = []"
    "consumption_events d' = consumption_events d"
    "fridge_sessions d' =
       update_session (session_id p) (close_fields clk p) (fridge_sessions d)"
proof -
  from assms(1) obtain s0
    where s0: "find (\<lambda>s. fs_id s = session_id p) (fridge_sessions d) = Some s0"
    by (rule session_known)
  from close_summary[OF s0, of clk] obtain d' r where
    run: "session_close d clk p = (d', Inr r)" and
    cons: "consumed r = fst (engine d clk p (close_fields clk p s0))" and
    app: "appended d d' = snd (engine d clk p (close_fields clk p s0))" and
    led: "consumption_events d' = consumption_events d @ appended d d'" and
    ses: "fridge_sessions d' =
       update_session (session_id p) (close_fields clk p) (fridge_sessions d)"
    by blast
  note off = engine_off[OF assms(2), of d clk "close_fields clk p s0"]
  from cons off have c: "consumed r = []" by simp
  from app off have a: "appended d d' = []" by simp
  from led a have l: "consumption_events d' = consumption_events d" by simp
  from run c a l ses show ?thesis by (rule that)
qed

text \<open>
  C2, as amended. Take a close request on an existing session whose two capture ids are
  present and not zero. It succeeds whether or not the captures have rows. When the
  after-capture has no rows, the entries (and the events written) are the before-labels
  of positive quantity, each with its before quantity, in the order of the
  before-snapshot; a before-label of quantity zero or less gets no entry. When the
  before-capture has no rows, no entry is returned and no event is written.
\<close>

theorem close_missing_capture:
  assumes "session_id p \<in> fs_id ` set (fridge_sessions d)"
    and "capture_before_id p = Some b" and "b \<noteq> 0"
    and "capture_after_id p = Some a" and "a \<noteq> 0"
  shows "\<exists>d' r. session_close d clk p = (d', Inr r) \<and>
           (no_rows d a \<longrightarrow>
              map (\<lambda>c. (label c, quantity c)) (consumed r) =
                filter (\<lambda>x. 0 < snd x) (capture_items (vision_items d) b) \<and>
              map (\<lambda>e. (ce_product_label e, ce_quantity e)) (appended d d') =
                filter (\<lambda>x. 0 < snd x) (capture_items (vision_items d) b)) \<and>
           (no_rows d b \<longrightarrow> consumed r = [] \<and> appended d d' = [])"
proof -
  from close_on[OF assms, of clk] obtain d' r where
    run: "session_close d clk p = (d', Inr r)" and
    c: "map (\<lambda>c. (label c, quantity c)) (consumed r) =
       positive_deltas (capture_items (vision_items d) a) (capture_items (vision_items d) b)" and
    e: "map (\<lambda>e. (ce_product_label e, ce_quantity e)) (appended d d') =
       positive_deltas (capture_items (vision_items d) a) (capture_items (vision_items d) b)"
    by blast
  have after_missing: "positive_deltas (capture_items (vision_items d) a)
        (capture_items (vision_items d) b) =
      filter (\<lambda>x. 0 < snd x) (capture_items (vision_items d) b)" if "no_rows d a"
    using that by (simp add: capture_items_no_rows positive_deltas_empty_after)
  have before_missing: "positive_deltas (capture_items (vision_items d) a)
        (capture_items (vision_items d) b) = []" if "no_rows d b"
    using that by (simp add: capture_items_no_rows positive_deltas_Nil)
  from c e after_missing have 1: "no_rows d a \<longrightarrow>
              map (\<lambda>c. (label c, quantity c)) (consumed r) =
                filter (\<lambda>x. 0 < snd x) (capture_items (vision_items d) b) \<and>
              map (\<lambda>e. (ce_product_label e, ce_quantity e)) (appended d d') =
                filter (\<lambda>x. 0 < snd x) (capture_items (vision_items d) b)"
    by simp
  have 2: "no_rows d b \<longrightarrow> consumed r = [] \<and> appended d d' = []"
  proof
    assume "no_rows d b"
    then have "positive_deltas (capture_items (vision_items d) a)
        (capture_items (vision_items d) b) = []" by (rule before_missing)
    with c e have "map (\<lambda>c. (label c, quantity c)) (consumed r) = []"
      and "map (\<lambda>e. (ce_product_label e, ce_quantity e)) (appended d d') = []"
      by simp_all
    then show "consumed r = [] \<and> appended d d' = []" by simp
  qed
  from run 1 2 show ?thesis by blast
qed

theorem close_missing_capture_witness:
  "session_id (close_req 1 (Some 4) (Some 9)) \<in> fs_id ` set (fridge_sessions fridge_db) \<and>
   no_rows fridge_db 9 \<and>
   (\<exists>d' r. session_close fridge_db tick (close_req 1 (Some 4) (Some 9)) = (d', Inr r) \<and>
      map (\<lambda>c. (label c, quantity c)) (consumed r) = [(''milk'', 5), (''soda'', 2)] \<and>
      map (\<lambda>e. (ce_product_label e, ce_quantity e)) (appended fridge_db d') =
        [(''milk'', 5), (''soda'', 2)]) \<and>
   (\<exists>d' r. session_close fridge_db tick (close_req 1 (Some 9) (Some 5)) = (d', Inr r) \<and>
      consumed r = [] \<and> appended fridge_db d' = [])"
proof -
  have h1: "session_id (close_req 1 (Some 4) (Some 9)) \<in> fs_id ` set (fridge_sessions fridge_db)"
    and h1': "session_id (close_req 1 (Some 9) (Some 5)) \<in> fs_id ` set (fridge_sessions fridge_db)"
    by (simp_all add: example_defs)
  have h2: "capture_before_id (close_req 1 (Some 4) (Some 9)) = Some 4"
    and h3: "capture_after_id (close_req 1 (Some 4) (Some 9)) = Some 9"
    and h2': "capture_before_id (close_req 1 (Some 9) (Some 5)) = Some 9"
    and h3': "capture_after_id (close_req 1 (Some 9) (Some 5)) = Some 5"
    by (simp_all add: example_defs)
  have n: "no_rows fridge_db 9" by (simp add: no_rows_def example_defs)
  have b: "capture_items (vision_items fridge_db) 4 = [(''milk'', 5), (''soda'', 2)]"
    by (simp add: example_defs capture_items_def)
  from close_missing_capture[OF h1 h2 _ h3, of tick] n b
  have first: "\<exists>d' r. session_close fridge_db tick (close_req 1 (Some 4) (Some 9)) = (d', Inr r) \<and>
      map (\<lambda>c. (label c, quantity c)) (consumed r) = [(''milk'', 5), (''soda'', 2)] \<and>
      map (\<lambda>e. (ce_product_label e, ce_quantity e)) (appended fridge_db d') =
        [(''milk'', 5), (''soda'', 2)]"
    by auto
  from close_missing_capture[OF h1' h2' _ h3', of tick] n
  have second: "\<exists>d' r. session_close fridge_db tick (close_req 1 (Some 9) (Some 5)) = (d', Inr r) \<and>
      consumed r = [] \<and> appended fridge_db d' = []"
    by auto
  from h1 n first second show ?thesis by blast
qed

text \<open>
  C2 as it is worded fails for a before-label whose quantity is not positive. Capture 9
  has no rows. Capture 6 holds milk 5 and soda 0, and the close returns milk 5 only: soda,
  a before-label, has no entry. Capture 7 holds milk -2 and soda -5, and the close returns
  nothing: neither before-label has an entry of its before quantity.
\<close>

theorem close_missing_capture_counterexample:
  "no_rows fridge_db 9 \<and>
   capture_items (vision_items fridge_db) 6 = [(''milk'', 5), (''soda'', 0)] \<and>
   snd (session_close fridge_db tick (close_req 1 (Some 6) (Some 9))) =
     Inr \<lparr>scr_success = True, scr_session_id = 1,
          consumed = [\<lparr>label = ''milk'', quantity = 5\<rparr>]\<rparr> \<and>
   capture_items (vision_items fridge_db) 7 = [(''milk'', - 2), (''soda'', - 5)] \<and>
   snd (session_close fridge_db tick (close_req 1 (Some 7) (Some 9))) =
     Inr \<lparr>scr_success = True, scr_session_id = 1, consumed = []\<rparr>"
  by (simp add: example_defs close_defs no_rows_def)

subsection \<open>C3: when the reconciliation runs\<close>

lemma status_after_close:
  "s \<in> set (update_session sid (close_fields clk p) rows) \<Longrightarrow> fs_id s = sid
     \<Longrightarrow> fs_status s = ''closed''"
proof -
  assume mem: "s \<in> set (update_session sid (close_fields clk p) rows)" and id: "fs_id s = sid"
  from mem obtain r where "r \<in> set rows"
    and s: "s = (if fs_id r = sid then close_fields clk p r else r)"
    unfolding update_session_def set_map by (rule imageE)
  show "fs_status s = ''closed''"
  proof (cases "fs_id r = sid")
    case True
    with s show ?thesis by (simp add: close_fields_def)
  next
    case False
    with s id show ?thesis by simp
  qed
qed

lemma truthy_int_Some:
  "truthy_int x \<Longrightarrow> \<exists>n. x = Some n \<and> n \<noteq> 0"
  by (cases x) simp_all

text \<open>
  C3, as amended. A close request on an existing session always succeeds and leaves the
  session with status \<^verbatim>\<open>closed\<close>. The reconciliation runs if and only if both capture ids
  are present and not zero: then the entries returned and the events written are the
  positive deltas of the before-snapshot against the after-snapshot; when a capture id is
  absent or zero, the returned list is empty and the ledger is left as it was.
\<close>

theorem close_engine_guard:
  assumes "session_id p \<in> fs_id ` set (fridge_sessions d)"
  shows "\<exists>d' r. session_close d clk p = (d', Inr r) \<and>
           (if truthy_int (capture_before_id p) \<and> truthy_int (capture_after_id p)
            then map (\<lambda>c. (label c, quantity c)) (consumed r) =
                   positive_deltas (after_snapshot d p) (before_snapshot d p) \<and>
                 map (\<lambda>e. (ce_product_label e, ce_quantity e)) (appended d d') =
                   positive_deltas (after_snapshot d p) (before_snapshot d p)
            else consumed r = [] \<and> consumption_events d' = consumption_events d) \<and>
           (\<forall>s \<in> set (fridge_sessions d'). fs_id s = session_id p \<longrightarrow> fs_status s = ''closed'')"
proof (cases "truthy_int (capture_before_id p) \<and> truthy_int (capture_after_id p)")
  case True
  then obtain b a where b: "capture_before_id p = Some b" "b \<noteq> 0"
    and a: "capture_after_id p = Some a" "a \<noteq> 0"
    using truthy_int_Some by blast
  from close_on[OF assms b a, of clk] obtain d' r where
    run: "session_close d clk p = (d', Inr r)" and
    c: "map (\<lambda>c. (label c, quantity c)) (consumed r) =
       positive_deltas (capture_items (vision_items d) a) (capture_items (vision_items d) b)" and
    e: "map (\<lambda>e. (ce_product_label e, ce_quantity e)) (appended d d') =
       positive_deltas (capture_items (vision_items d) a) (capture_items (vision_items d) b)" and
    ses: "fridge_sessions d' =
       update_session (session_id p) (close_fields clk p) (fridge_sessions d)"
    by blast
  have snap: "after_snapshot d p = capture_items (vision_items d) a"
    "before_snapshot d p = capture_items (vision_items d) b"
    by (simp_all add: after_snapshot_def before_snapshot_def a b)
  have st: "\<forall>s \<in> set (fridge_sessions d'). fs_id s = session_id p \<longrightarrow> fs_status s = ''closed''"
    unfolding ses by (blast intro: status_after_close)
  show ?thesis
  proof (intro exI conjI)
    show "session_close d clk p = (d', Inr r)" by (rule run)
    show "if truthy_int (capture_before_id p) \<and> truthy_int (capture_after_id p)
            then map (\<lambda>c. (label c, quantity c)) (consumed r) =
                   positive_deltas (after_snapshot d p) (before_snapshot d p) \<and>
                 map (\<lambda>e. (ce_product_label e, ce_quantity e)) (appended d d') =
                   positive_deltas (after_snapshot d p) (before_snapshot d p)
            else consumed r = [] \<and> consumption_events d' = consumption_events d"
      unfolding if_P[OF True] snap using c e by simp
    show "\<forall>s \<in> set (fridge_sessions d'). fs_id s = session_id p \<longrightarrow> fs_status s = ''closed''"
      by (rule st)
  qed
next
  case False
  from close_off[OF assms False, of clk] obtain d' r where
    run: "session_close d clk p = (d', Inr r)" and
    c: "consumed r = []" and
    l: "consumption_events d' = consumption_events d" and
    ses: "fridge_sessions d' =
       update_session (session_id p) (close_fields clk p) (fridge_sessions d)"
    by blast
  have st: "\<forall>s \<in> set (fridge_sessions d'). fs_id s = session_id p \<longrightarrow> fs_status s = ''closed''"
    unfolding ses by (blast intro: status_after_close)
  show ?thesis
  proof (intro exI conjI)
    show "session_close d clk p = (d', Inr r)" by (rule run)
    show "if truthy_int (capture_before_id p) \<and> truthy_int (capture_after_id p)
            then map (\<lambda>c. (label c, quantity c)) (consumed r) =
                   positive_deltas (after_snapshot d p) (before_snapshot d p) \<and>
                 map (\<lambda>e. (ce_product_label e, ce_quantity e)) (appended d d') =
                   positive_deltas (after_snapshot d p) (before_snapshot d p)
            else consumed r = [] \<and> consumption_events d' = consumption_events d"
      unfolding if_not_P[OF False] using c l by simp
    show "\<forall>s \<in> set (fridge_sessions d'). fs_id s = session_id p \<longrightarrow> fs_status s = ''closed''"
      by (rule st)
  qed
qed

theorem close_engine_guard_witness:
  "session_id (close_req 1 (Some 4) None) \<in> fs_id ` set (fridge_sessions fridge_db) \<and>
   (\<exists>d' r. session_close fridge_db tick (close_req 1 (Some 4) None) = (d', Inr r) \<and>
      consumed r = [] \<and> consumption_events d' = consumption_events fridge_db \<and>
      list_all (\<lambda>s. fs_id s \<noteq> 1 \<or> fs_status s = ''closed'') (fridge_sessions d')) \<and>
   (\<exists>d' r. session_close fridge_db tick (close_req 1 (Some 4) (Some 5)) = (d', Inr r) \<and>
      map (\<lambda>c. (label c, quantity c)) (consumed r) = [(''milk'', 2), (''soda'', 2)] \<and>
      map (\<lambda>e. (ce_product_label e, ce_quantity e)) (appended fridge_db d') =
        [(''milk'', 2), (''soda'', 2)])"
proof -
  let ?p = "close_req 1 (Some 4) None" and ?q = "close_req 1 (Some 4) (Some 5)"
  have h: "session_id ?p \<in> fs_id ` set (fridge_sessions fridge_db)"
    and h': "session_id ?q \<in> fs_id ` set (fridge_sessions fridge_db)"
    by (simp_all add: example_defs)
  have off: "\<not> (truthy_int (capture_before_id ?p) \<and> truthy_int (capture_after_id ?p))"
    by (simp add: close_req_def)
  have on: "truthy_int (capture_before_id ?q) \<and> truthy_int (capture_after_id ?q)"
    by (simp add: close_req_def)
  have sid: "session_id ?p = 1" by (simp add: close_req_def)
  have pd: "positive_deltas (after_snapshot fridge_db ?q) (before_snapshot fridge_db ?q) =
            [(''milk'', 2), (''soda'', 2)]"
    by (simp add: example_defs after_snapshot_def before_snapshot_def capture_items_def
        positive_deltas_def)
  from close_engine_guard[OF h, of tick] obtain d1 r1 where
    1: "session_close fridge_db tick ?p = (d1, Inr r1)"
      "consumed r1 = [] \<and> consumption_events d1 = consumption_events fridge_db"
      "\<forall>s \<in> set (fridge_sessions d1). fs_id s = session_id ?p \<longrightarrow> fs_status s = ''closed''"
    unfolding if_not_P[OF off] by blast
  from 1(3) have st: "list_all (\<lambda>s. fs_id s \<noteq> 1 \<or> fs_status s = ''closed'') (fridge_sessions d1)"
    unfolding sid list_all_iff by blast
  from close_engine_guard[OF h', of tick] obtain d2 r2 where
    2: "session_close fridge_db tick ?q = (d2, Inr r2)"
      "map (\<lambda>c. (label c, quantity c)) (consumed r2) = [(''milk'', 2), (''soda'', 2)] \<and>
       map (\<lambda>e. (ce_product_label e, ce_quantity e)) (appended fridge_db d2) =
         [(''milk'', 2), (''soda'', 2)]"
    unfolding if_P[OF on] pd by (elim exE conjE) (rule that, assumption, intro conjI)
  have first: "\<exists>d' r. session_close fridge_db tick ?p = (d', Inr r) \<and>
      consumed r = [] \<and> consumption_events d' = consumption_events fridge_db \<and>
      list_all (\<lambda>s. fs_id s \<noteq> 1 \<or> fs_status s = ''closed'') (fridge_sessions d')"
    using 1(1,2) st by (intro exI[of _ d1] exI[of _ r1]) (simp only: simp_thms)
  have second: "\<exists>d' r. session_close fridge_db tick ?q = (d', Inr r) \<and>
      map (\<lambda>c. (label c, quantity c)) (consumed r) = [(''milk'', 2), (''soda'', 2)] \<and>
      map (\<lambda>e. (ce_product_label e, ce_quantity e)) (appended fridge_db d') =
        [(''milk'', 2), (''soda'', 2)]"
    using 2 by (intro exI[of _ d2] exI[of _ r2]) (simp only: simp_thms)
  from h first second show ?thesis by (intro conjI)
qed

text \<open>
  C3 as it is worded fails when a capture id is present and is 0. Both ids of the request
  are present; the loop, run on the two snapshots, would record soda 2; the close returns
  an empty list and leaves the ledger as it was.
\<close>

theorem close_engine_guard_counterexample:
  "capture_before_id (close_req 1 (Some 4) (Some 0)) = Some 4 \<and>
   capture_after_id (close_req 1 (Some 4) (Some 0)) = Some 0 \<and>
   fst (reconcile open_session tick 2
          (capture_items (vision_items fridge_db) 0)
          (capture_items (vision_items fridge_db) 4) ([], [])) =
     [\<lparr>label = ''soda'', quantity = 2\<rparr>] \<and>
   snd (session_close fridge_db tick (close_req 1 (Some 4) (Some 0))) =
     Inr \<lparr>scr_success = True, scr_session_id = 1, consumed = []\<rparr> \<and>
   consumption_events (fst (session_close fridge_db tick (close_req 1 (Some 4) (Some 0)))) =
     consumption_events fridge_db"
  by (simp add: example_defs close_defs)

subsection \<open>Every outcome of a close request\<close>

lemma appended_same: "appended d d = []"
  by (simp add: appended_def)

lemma positive_deltas_member:
  assumes "x \<in> set (positive_deltas A B)"
  shows "0 < snd x \<and> (\<exists>q. (fst x, q) \<in> set B \<and> snd x = q - dict_get A (fst x) 0)"
  using assms unfolding positive_deltas_def by auto

lemma event_of_enumerate:
  assumes "e \<in> set (map (event_of s clk base) (enumerate n xs))"
  obtains k x where "x \<in> set xs" "e = event_of s clk base (k, x)"
proof -
  from assms obtain kx where "kx \<in> set (enumerate n xs)" and e: "e = event_of s clk base kx"
    by auto
  then have "snd kx \<in> snd ` set (enumerate n xs)" by (intro imageI)
  also have "snd ` set (enumerate n xs) = set xs"
    by (metis map_snd_enumerate set_map)
  finally have "snd kx \<in> set xs" .
  with e that[of "snd kx" "fst kx"] show ?thesis by simp
qed

text \<open>Every outcome of a close request, by cases.\<close>

lemma close_cases:
  obtains
    (missing) "session_id p \<notin> fs_id ` set (fridge_sessions d)"
      "session_close d clk p = (d, Inl SessionNotFound)"
  | (off) s0 d' r where
      "find (\<lambda>s. fs_id s = session_id p) (fridge_sessions d) = Some s0"
      "\<not> (truthy_int (capture_before_id p) \<and> truthy_int (capture_after_id p))"
      "session_close d clk p = (d', Inr r)" "consumed r = []" "appended d d' = []"
  | (on) s0 b a d' r where
      "find (\<lambda>s. fs_id s = session_id p) (fridge_sessions d) = Some s0"
      "capture_before_id p = Some b" "b \<noteq> 0" "capture_after_id p = Some a" "a \<noteq> 0"
      "session_close d clk p = (d', Inr r)"
      "consumed r = map entry_of (positive_deltas (capture_items (vision_items d) a)
                     (capture_items (vision_items d) b))"
      "appended d d' =
         map (event_of (close_fields clk p s0) clk (next_id (map ce_id (consumption_events d))))
           (enumerate 0 (positive_deltas (capture_items (vision_items d) a)
                           (capture_items (vision_items d) b)))"
proof (cases "find (\<lambda>s. fs_id s = session_id p) (fridge_sessions d)")
  case None
  then have "session_id p \<notin> fs_id ` set (fridge_sessions d)"
    using find_session_None[of "session_id p" "fridge_sessions d"] by blast
  moreover from None have "session_close d clk p = (d, Inl SessionNotFound)"
    by (rule session_close_missing)
  ultimately show ?thesis by (rule missing)
next
  case (Some s0)
  from close_summary[OF Some, of clk] obtain d' r where
    run: "session_close d clk p = (d', Inr r)" and
    cons: "consumed r = fst (engine d clk p (close_fields clk p s0))" and
    app: "appended d d' = snd (engine d clk p (close_fields clk p s0))"
    by blast
  show ?thesis
  proof (cases "truthy_int (capture_before_id p) \<and> truthy_int (capture_after_id p)")
    case False
    note e = engine_off[OF False, of d clk "close_fields clk p s0"]
    from cons app have "consumed r = []" "appended d d' = []" by (simp_all add: e)
    with Some False run show ?thesis by (rule off)
  next
    case True
    then obtain b a where b: "capture_before_id p = Some b" "b \<noteq> 0"
      and a: "capture_after_id p = Some a" "a \<noteq> 0"
      using truthy_int_Some by blast
    note e = engine_on[OF b a, of d clk "close_fields clk p s0"]
    from cons have c: "consumed r = map entry_of (positive_deltas (capture_items (vision_items d) a)
                     (capture_items (vision_items d) b))"
      by (simp only: e fst_conv)
    from app have v: "appended d d' =
         map (event_of (close_fields clk p s0) clk (next_id (map ce_id (consumption_events d))))
           (enumerate 0 (positive_deltas (capture_items (vision_items d) a)
                           (capture_items (vision_items d) b)))"
      by (simp only: e snd_conv)
    from Some b a run c v show ?thesis by (rule on)
  qed
qed

subsection \<open>C6: labels of the after-snapshot only\<close>

lemma entries_for_Nil_iff: "(entries_for l cs = []) = (l \<notin> label ` set cs)"
  by (auto simp: entries_for_def filter_empty_conv)

lemma events_for_Nil_iff: "(events_for l es = []) = (l \<notin> ce_product_label ` set es)"
  by (auto simp: events_for_def filter_empty_conv)

lemma positive_deltas_keys: "fst ` set (positive_deltas A B) \<subseteq> fst ` set B"
  unfolding positive_deltas_def by force

lemma label_entry_of: "label ` set (map entry_of xs) = fst ` set xs"
  by (induction xs) (simp_all add: entry_of_def)

lemma label_event_of:
  "ce_product_label ` set (map (event_of s clk base) (enumerate n xs)) = fst ` set xs"
  by (induction xs arbitrary: n) (simp_all add: event_of_def)

text \<open>
  C6. Whatever a close request returns, a label that is not a key of the before-snapshot
  has no entry in the returned list and no event among those written, whatever the
  after-snapshot holds for it.
\<close>

theorem after_only_label_ignored:
  assumes "session_close d clk p = (d', res)"
    and "\<not> dict_has (before_snapshot d p) l"
  shows "events_for l (appended d d') = [] \<and>
         (\<forall>r. res = Inr r \<longrightarrow> entries_for l (consumed r) = [])"
proof (cases rule: close_cases[of p d clk])
  case missing
  with assms(1) have "d' = d" and "res = Inl SessionNotFound" by simp_all
  then show ?thesis by (simp add: appended_same events_for_def)
next
  case (off s0 d'' r'')
  with assms(1) have "d' = d''" and "res = Inr r''" by simp_all
  with off(4,5) show ?thesis by (simp add: events_for_def entries_for_def)
next
  case (on s0 b a d'' r'')
  with assms(1) have eq: "d' = d''" "res = Inr r''" by simp_all
  from on(2) have "before_snapshot d p = capture_items (vision_items d) b"
    by (simp add: before_snapshot_def)
  with assms(2) have "l \<notin> fst ` set (capture_items (vision_items d) b)"
    by (simp add: dict_has_def)
  with positive_deltas_keys[of "capture_items (vision_items d) a" "capture_items (vision_items d) b"]
  have out: "l \<notin> fst ` set (positive_deltas (capture_items (vision_items d) a)
                               (capture_items (vision_items d) b))"
    by blast
  from out have "l \<notin> label ` set (consumed r'')"
    unfolding on(7) label_entry_of .
  moreover from out have "l \<notin> ce_product_label ` set (appended d d'')"
    unfolding on(8) label_event_of .
  ultimately show ?thesis
    unfolding eq by (simp add: entries_for_Nil_iff events_for_Nil_iff)
qed

theorem after_only_label_ignored_witness:
  "dict_get (after_snapshot fridge_db (close_req 1 (Some 4) (Some 5))) ''juice'' 0 = 9 \<and>
   \<not> dict_has (before_snapshot fridge_db (close_req 1 (Some 4) (Some 5))) ''juice'' \<and>
   events_for ''juice''
     (appended fridge_db (fst (session_close fridge_db tick (close_req 1 (Some 4) (Some 5))))) = [] \<and>
   (\<exists>r. snd (session_close fridge_db tick (close_req 1 (Some 4) (Some 5))) = Inr r \<and>
        entries_for ''juice'' (consumed r) = [] \<and> entries_for ''milk'' (consumed r) \<noteq> [])"
proof -
  let ?p = "close_req 1 (Some 4) (Some 5)"
  have run: "session_close fridge_db tick ?p =
    (fst (session_close fridge_db tick ?p), snd (session_close fridge_db tick ?p))"
    by simp
  have a: "dict_get (after_snapshot fridge_db ?p) ''juice'' 0 = 9"
    by (simp add: example_defs after_snapshot_def capture_items_def)
  have b: "\<not> dict_has (before_snapshot fridge_db ?p) ''juice''"
    by (simp add: example_defs before_snapshot_def capture_items_def dict_has_def)
  have r: "snd (session_close fridge_db tick ?p) =
    Inr \<lparr>scr_success = True, scr_session_id = 1,
         consumed = [\<lparr>label = ''milk'', quantity = 2\<rparr>, \<lparr>label = ''soda'', quantity = 2\<rparr>]\<rparr>"
    by (simp add: example_defs close_defs)
  from after_only_label_ignored[OF run b] a b r show ?thesis
    by (simp add: entries_for_def)
qed

subsection \<open>C8: the fields of a written event\<close>

lemma dict_has_member: "(k, v) \<in> set d \<Longrightarrow> dict_has d k"
  unfolding dict_has_def set_map by (rule image_eqI[where x = "(k, v)"]) simp_all

text \<open>
  C8. Every event a close request writes carries the id and the \<^verbatim>\<open>employee_id\<close> of the
  session row the request loaded (no other table is consulted), the label and quantity of
  an entry of the returned list, that quantity being the before quantity of the label minus
  its after quantity (0 when the after-snapshot lacks the label), and a quantity above
  zero, whatever the signs of the quantities in the snapshots.
\<close>

theorem written_event_fields:
  assumes "session_close d clk p = (d', res)"
    and "e \<in> set (appended d d')"
  shows "\<exists>s0 r. find (\<lambda>s. fs_id s = session_id p) (fridge_sessions d) = Some s0 \<and>
           res = Inr r \<and>
           ce_session_id e = fs_id s0 \<and>
           ce_employee_id e = fs_employee_id s0 \<and>
           \<lparr>label = ce_product_label e, quantity = ce_quantity e\<rparr> \<in> set (consumed r) \<and>
           dict_has (before_snapshot d p) (ce_product_label e) \<and>
           ce_quantity e =
             dict_get (before_snapshot d p) (ce_product_label e) 0 -
             dict_get (after_snapshot d p) (ce_product_label e) 0 \<and>
           0 < ce_quantity e"
proof (cases rule: close_cases[of p d clk])
  case missing
  with assms(1) have "d' = d" by simp
  with assms(2) show ?thesis by (simp add: appended_same)
next
  case (off s0 d'' r'')
  with assms(1) have "d' = d''" by simp
  with assms(2) off(5) show ?thesis by simp
next
  case (on s0 b a d'' r'')
  let ?A = "capture_items (vision_items d) a" and ?B = "capture_items (vision_items d) b"
  from on(6) assms(1) have eq: "d' = d''" "res = Inr r''" by simp_all
  from assms(2) have "e \<in> set (map (event_of (close_fields clk p s0) clk
        (next_id (map ce_id (consumption_events d)))) (enumerate 0 (positive_deltas ?A ?B)))"
    unfolding eq on(8) .
  then obtain k x where x: "x \<in> set (positive_deltas ?A ?B)"
    and e: "e = event_of (close_fields clk p s0) clk (next_id (map ce_id (consumption_events d))) (k, x)"
    by (rule event_of_enumerate)
  from positive_deltas_member[OF x] obtain q where pos: "0 < snd x"
    and q: "(fst x, q) \<in> set ?B" and dq: "snd x = q - dict_get ?A (fst x) 0"
    by blast
  have snap: "before_snapshot d p = ?B" "after_snapshot d p = ?A"
    by (simp_all add: before_snapshot_def after_snapshot_def on(2) on(4))
  have lbl: "ce_product_label e = fst x" and qty: "ce_quantity e = snd x"
    and sid: "ce_session_id e = fs_id s0" and eid: "ce_employee_id e = fs_employee_id s0"
    by (simp_all add: e event_of_def close_fields_def)
  from q have has: "dict_has ?B (fst x)" by (rule dict_has_member)
  have "dict_get ?B (fst x) 0 = q"
    using distinct_capture_items q by (rule dict_get_member)
  with dq have delta: "snd x = dict_get ?B (fst x) 0 - dict_get ?A (fst x) 0" by simp
  from x have "entry_of x \<in> set (consumed r'')" unfolding on(7) by simp
  then have ent: "\<lparr>label = fst x, quantity = snd x\<rparr> \<in> set (consumed r'')"
    by (simp add: entry_of_def)
  show ?thesis
  proof (intro exI conjI)
    show "find (\<lambda>s. fs_id s = session_id p) (fridge_sessions d) = Some s0" by (rule on(1))
    show "res = Inr r''" by (rule eq(2))
    show "ce_session_id e = fs_id s0" by (rule sid)
    show "ce_employee_id e = fs_employee_id s0" by (rule eid)
    show "\<lparr>label = ce_product_label e, quantity = ce_quantity e\<rparr> \<in> set (consumed r'')"
      unfolding lbl qty by (rule ent)
    show "dict_has (before_snapshot d p) (ce_product_label e)"
      unfolding lbl snap by (rule has)
    show "ce_quantity e =
             dict_get (before_snapshot d p) (ce_product_label e) 0 -
             dict_get (after_snapshot d p) (ce_product_label e) 0"
      unfolding lbl qty snap by (rule delta)
    show "0 < ce_quantity e" unfolding qty by (rule pos)
  qed
qed

theorem written_event_fields_witness:
  "\<lparr>ce_id = 2, ce_session_id = 1, ce_employee_id = 1, ce_product_label = ''milk'',
     ce_quantity = 7, ce_created_at = Some 1001\<rparr>
     \<in> set (appended fridge_db
               (fst (session_close fridge_db tick (close_req 1 (Some 4) (Some 7))))) \<and>
   dict_get (after_snapshot fridge_db (close_req 1 (Some 4) (Some 7))) ''milk'' 0 = - 2 \<and>
   (\<exists>r. snd (session_close fridge_db tick (close_req 1 (Some 4) (Some 7))) = Inr r \<and>
        \<lparr>label = ''milk'', quantity = 7\<rparr> \<in> set (consumed r)) \<and>
   find (\<lambda>s. fs_id s = 1) (fridge_sessions fridge_db) = Some open_session \<and>
   fs_employee_id open_session = 1"
proof -
  let ?p = "close_req 1 (Some 4) (Some 7)"
  let ?e = "\<lparr>ce_id = 2, ce_session_id = 1, ce_employee_id = 1, ce_product_label = ''milk'',
     ce_quantity = 7, ce_created_at = Some 1001\<rparr>"
  have run: "session_close fridge_db tick ?p =
    (fst (session_close fridge_db tick ?p), snd (session_close fridge_db tick ?p))"
    by simp
  have app: "appended fridge_db (fst (session_close fridge_db tick ?p)) =
      [?e, \<lparr>ce_id = 3, ce_session_id = 1, ce_employee_id = 1, ce_product_label = ''soda'',
            ce_quantity = 7, ce_created_at = Some 1002\<rparr>]"
    by (simp add: example_defs close_defs appended_def)
  then have mem: "?e \<in> set (appended fridge_db (fst (session_close fridge_db tick ?p)))"
    by simp
  have a: "dict_get (after_snapshot fridge_db ?p) ''milk'' 0 = - 2"
    by (simp add: example_defs after_snapshot_def capture_items_def)
  have f: "find (\<lambda>s. fs_id s = 1) (fridge_sessions fridge_db) = Some open_session"
    by (simp add: example_defs)
  have emp: "fs_employee_id open_session = 1" by (simp add: open_session_def)
  from written_event_fields[OF run mem]
  have "\<exists>r. snd (session_close fridge_db tick ?p) = Inr r \<and>
        \<lparr>label = ''milk'', quantity = 7\<rparr> \<in> set (consumed r)"
    by auto
  with mem a f emp show ?thesis by (intro conjI)
qed

subsection \<open>C10: what a close leaves alone\<close>

lemma update_session_kept:
  assumes "\<And>s. g (f s) = g s"
  shows "map g (update_session sid f rows) = map g rows"
  unfolding update_session_def by (induction rows) (simp_all add: assms)

lemma update_session_set:
  assumes "\<And>s. g (f s) = v"
  shows "map g (update_session sid f rows) = map (\<lambda>s. if fs_id s = sid then v else g s) rows"
  unfolding update_session_def by (induction rows) (simp_all add: assms)

text \<open>
  C10. A close request on an existing session succeeds; in the session table it leaves
  the number and order of the rows and every \<^verbatim>\<open>id\<close>, \<^verbatim>\<open>employee_id\<close>, \<^verbatim>\<open>device_id\<close>,
  \<^verbatim>\<open>opened_at\<close> and \<^verbatim>\<open>notes\<close> as they were; the rows with the request's session id get
  \<^verbatim>\<open>closed_at\<close>, the two capture ids of the request, whatever they are (\<open>None\<close> when the
  request has none), and the status \<^verbatim>\<open>closed\<close>; every other row keeps those four fields
  too. The employee and vision-item tables are untouched.
\<close>

theorem close_frame:
  assumes "session_id p \<in> fs_id ` set (fridge_sessions d)"
  shows "\<exists>d' r. session_close d clk p = (d', Inr r) \<and>
     map fs_id (fridge_sessions d') = map fs_id (fridge_sessions d) \<and>
     map fs_employee_id (fridge_sessions d') = map fs_employee_id (fridge_sessions d) \<and>
     map fs_device_id (fridge_sessions d') = map fs_device_id (fridge_sessions d) \<and>
     map fs_opened_at (fridge_sessions d') = map fs_opened_at (fridge_sessions d) \<and>
     map fs_notes (fridge_sessions d') = map fs_notes (fridge_sessions d) \<and>
     map fs_closed_at (fridge_sessions d') =
       map (\<lambda>s. if fs_id s = session_id p then Some (clk 0) else fs_closed_at s)
         (fridge_sessions d) \<and>
     map fs_capture_before_id (fridge_sessions d') =
       map (\<lambda>s. if fs_id s = session_id p then capture_before_id p else fs_capture_before_id s)
         (fridge_sessions d) \<and>
     map fs_capture_after_id (fridge_sessions d') =
       map (\<lambda>s. if fs_id s = session_id p then capture_after_id p else fs_capture_after_id s)
         (fridge_sessions d) \<and>
     map fs_status (fridge_sessions d') =
       map (\<lambda>s. if fs_id s = session_id p then ''closed'' else fs_status s)
         (fridge_sessions d) \<and>
     employees d' = employees d \<and> vision_items d' = vision_items d"
proof -
  from assms obtain s0
    where s0: "find (\<lambda>s. fs_id s = session_id p) (fridge_sessions d) = Some s0"
    by (rule session_known)
  from close_summary[OF s0, of clk] obtain d' r where
    run: "session_close d clk p = (d', Inr r)" and
    ses: "fridge_sessions d' =
       update_session (session_id p) (close_fields clk p) (fridge_sessions d)" and
    emp: "employees d' = employees d" and vis: "vision_items d' = vision_items d"
    by blast
  show ?thesis
  proof (intro exI conjI)
    show "session_close d clk p = (d', Inr r)" by (rule run)
    show "map fs_id (fridge_sessions d') = map fs_id (fridge_sessions d)"
      unfolding ses by (rule update_session_kept) (simp add: close_fields_def)
    show "map fs_employee_id (fridge_sessions d') = map fs_employee_id (fridge_sessions d)"
      unfolding ses by (rule update_session_kept) (simp add: close_fields_def)
    show "map fs_device_id (fridge_sessions d') = map fs_device_id (fridge_sessions d)"
      unfolding ses by (rule update_session_kept) (simp add: close_fields_def)
    show "map fs_opened_at (fridge_sessions d') = map fs_opened_at (fridge_sessions d)"
      unfolding ses by (rule update_session_kept) (simp add: close_fields_def)
    show "map fs_notes (fridge_sessions d') = map fs_notes (fridge_sessions d)"
      unfolding ses by (rule update_session_kept) (simp add: close_fields_def)
    show "map fs_closed_at (fridge_sessions d') =
       map (\<lambda>s. if fs_id s = session_id p then Some (clk 0) else fs_closed_at s)
         (fridge_sessions d)"
      unfolding ses by (rule update_session_set) (simp add: close_fields_def)
    show "map fs_capture_before_id (fridge_sessions d') =
       map (\<lambda>s. if fs_id s = session_id p then capture_before_id p else fs_capture_before_id s)
         (fridge_sessions d)"
      unfolding ses by (rule update_session_set) (simp add: close_fields_def)
    show "map fs_capture_after_id (fridge_sessions d') =
       map (\<lambda>s. if fs_id s = session_id p then capture_after_id p else fs_capture_after_id s)
         (fridge_sessions d)"
      unfolding ses by (rule update_session_set) (simp add: close_fields_def)
    show "map fs_status (fridge_sessions d') =
       map (\<lambda>s. if fs_id s = session_id p then ''closed'' else fs_status s)
         (fridge_sessions d)"
      unfolding ses by (rule update_session_set) (simp add: close_fields_def)
    show "employees d' = employees d" by (rule emp)
    show "vision_items d' = vision_items d" by (rule vis)
  qed
qed

theorem close_frame_witness:
  "session_id (close_req 2 None None) \<in> fs_id ` set (fridge_sessions fridge_db) \<and>
   map fs_capture_before_id (fridge_sessions fridge_db) = [None, Some 6] \<and>
   map fs_capture_after_id (fridge_sessions fridge_db) = [None, Some 9] \<and>
   (\<exists>d' r. session_close fridge_db tick (close_req 2 None None) = (d', Inr r) \<and>
      map fs_capture_before_id (fridge_sessions d') = [None, None] \<and>
      map fs_capture_after_id (fridge_sessions d') = [None, None] \<and>
      map fs_status (fridge_sessions d') = [''open'', ''closed''] \<and>
      map fs_closed_at (fridge_sessions d') = [None, Some 1000] \<and>
      map fs_employee_id (fridge_sessions d') = [1, 2] \<and>
      map fs_opened_at (fridge_sessions d') = [Some 10, Some 20] \<and>
      map fs_notes (fridge_sessions d') = [None, Some ''lunch''])"
proof -
  let ?p = "close_req 2 None None"
  have h: "session_id ?p \<in> fs_id ` set (fridge_sessions fridge_db)"
    by (simp add: example_defs)
  have b: "map fs_capture_before_id (fridge_sessions fridge_db) = [None, Some 6]"
    and a: "map fs_capture_after_id (fridge_sessions fridge_db) = [None, Some 9]"
    by (simp_all add: example_defs)
  from close_frame[OF h, of tick] obtain d' r where
    run: "session_close fridge_db tick ?p = (d', Inr r)" and
    f: "map fs_capture_before_id (fridge_sessions d') =
       map (\<lambda>s. if fs_id s = session_id ?p then capture_before_id ?p else fs_capture_before_id s)
         (fridge_sessions fridge_db)"
     "map fs_capture_after_id (fridge_sessions d') =
       map (\<lambda>s. if fs_id s = session_id ?p then capture_after_id ?p else fs_capture_after_id s)
         (fridge_sessions fridge_db)"
     "map fs_status (fridge_sessions d') =
       map (\<lambda>s. if fs_id s = session_id ?p then ''closed'' else fs_status s)
         (fridge_sessions fridge_db)"
     "map fs_closed_at (fridge_sessions d') =
       map (\<lambda>s. if fs_id s = session_id ?p then Some (tick 0) else fs_closed_at s)
         (fridge_sessions fridge_db)"
     "map fs_employee_id (fridge_sessions d') = map fs_employee_id (fridge_sessions fridge_db)"
     "map fs_opened_at (fridge_sessions d') = map fs_opened_at (fridge_sessions fridge_db)"
     "map fs_notes (fridge_sessions d') = map fs_notes (fridge_sessions fridge_db)"
    by (elim exE conjE) (rule that)
  have "\<exists>d' r. session_close fridge_db tick ?p = (d', Inr r) \<and>
      map fs_capture_before_id (fridge_sessions d') = [None, None] \<and>
      map fs_capture_after_id (fridge_sessions d') = [None, None] \<and>
      map fs_status (fridge_sessions d') = [''open'', ''closed''] \<and>
      map fs_closed_at (fridge_sessions d') = [None, Some 1000] \<and>
      map fs_employee_id (fridge_sessions d') = [1, 2] \<and>
      map fs_opened_at (fridge_sessions d') = [Some 10, Some 20] \<and>
      map fs_notes (fridge_sessions d') = [None, Some ''lunch'']"
  proof (intro exI[of _ d'] exI[of _ r] conjI)
    show "session_close fridge_db tick ?p = (d', Inr r)" by (rule run)
  qed (simp_all add: f example_defs)
  with h b a show ?thesis by (intro conjI)
qed

subsection \<open>C7: lookup failures\<close>

lemma find_employee_None:
  "(find (\<lambda>e. emp_employee_code e = c) rows = None) = (c \<notin> emp_employee_code ` set rows)"
  by (induction rows) auto

lemma session_start_missing:
  assumes "employee_code q \<notin> emp_employee_code ` set (employees d)"
  shows "session_start d clk q = (d, Inl EmployeeNotFound)"
proof -
  from assms have "find (\<lambda>e. emp_employee_code e = employee_code q) (employees d) = None"
    by (simp add: find_employee_None)
  then show ?thesis unfolding session_start_def by (simp only: option.case)
qed

lemma session_start_found:
  assumes "find (\<lambda>e. emp_employee_code e = employee_code q) (employees d) = Some emp"
  shows "session_start d clk q =
    (d\<lparr>fridge_sessions := fridge_sessions d @
         [\<lparr>fs_id = next_id (map fs_id (fridge_sessions d)),
           fs_employee_id = emp_id emp,
           fs_device_id = device_id q,
           fs_opened_at = Some (clk 0),
           fs_closed_at = None,
           fs_capture_before_id = None,
           fs_capture_after_id = None,
           fs_status = ''open'',
           fs_notes = None\<rparr>]\<rparr>,
     Inr \<lparr>ssr_success = True,
          ssr_session_id = next_id (map fs_id (fridge_sessions d)),
          ssr_employee = employee_out_from_orm emp\<rparr>)"
  unfolding session_start_def by (simp add: assms Let_def)

lemma session_start_cases:
  obtains
    (missing) "employee_code q \<notin> emp_employee_code ` set (employees d)"
      "session_start d clk q = (d, Inl EmployeeNotFound)"
  | (found) new r where
      "employee_code q \<in> emp_employee_code ` set (employees d)"
      "session_start d clk q = (d\<lparr>fridge_sessions := fridge_sessions d @ [new]\<rparr>, Inr r)"
      "fs_status new = ''open''"
proof (cases "find (\<lambda>e. emp_employee_code e = employee_code q) (employees d)")
  case None
  then have no: "employee_code q \<notin> emp_employee_code ` set (employees d)"
    by (simp add: find_employee_None)
  then have "session_start d clk q = (d, Inl EmployeeNotFound)" by (rule session_start_missing)
  with no show ?thesis by (rule missing)
next
  case (Some emp)
  then have "find (\<lambda>e. emp_employee_code e = employee_code q) (employees d) \<noteq> None" by simp
  then have yes: "employee_code q \<in> emp_employee_code ` set (employees d)"
    by (simp add: find_employee_None)
  from yes session_start_found[OF Some, of clk] show ?thesis
    by (rule found) simp
qed

text \<open>
  C7. \<^verbatim>\<open>session_start\<close> fails, with the employee-not-found error, exactly when no row of
  the employee table has the request's code, and \<^verbatim>\<open>session_close\<close> fails, with the
  session-not-found error, exactly when no row of the session table has the request's id;
  both return a result otherwise. A failed request leaves the database as it was.
\<close>

theorem lookup_failures:
  "(if employee_code q \<in> emp_employee_code ` set (employees d)
    then \<exists>d' r. session_start d clk q = (d', Inr r)
    else session_start d clk q = (d, Inl EmployeeNotFound)) \<and>
   (if session_id p \<in> fs_id ` set (fridge_sessions d)
    then \<exists>d' r. session_close d clk' p = (d', Inr r)
    else session_close d clk' p = (d, Inl SessionNotFound))"
proof (intro conjI)
  show "if employee_code q \<in> emp_employee_code ` set (employees d)
    then \<exists>d' r. session_start d clk q = (d', Inr r)
    else session_start d clk q = (d, Inl EmployeeNotFound)"
  proof (cases rule: session_start_cases[of q d clk])
    case missing
    then show ?thesis by simp
  next
    case (found new r)
    then show ?thesis by simp
  qed
  show "if session_id p \<in> fs_id ` set (fridge_sessions d)
    then \<exists>d' r. session_close d clk' p = (d', Inr r)
    else session_close d clk' p = (d, Inl SessionNotFound)"
  proof (cases "session_id p \<in> fs_id ` set (fridge_sessions d)")
    case True
    then obtain s0
      where "find (\<lambda>s. fs_id s = session_id p) (fridge_sessions d) = Some s0"
      by (rule session_known)
    from close_summary[OF this, of clk'] obtain d' r
      where "session_close d clk' p = (d', Inr r)" by blast
    with True show ?thesis by simp
  next
    case False
    then have "find (\<lambda>s. fs_id s = session_id p) (fridge_sessions d) = None"
      by (simp add: find_session_None)
    then have "session_close d clk' p = (d, Inl SessionNotFound)"
      by (rule session_close_missing)
    with False show ?thesis by simp
  qed
qed

theorem lookup_failures_witness:
  "session_start fridge_db tick (start_req ''E9'' ''fridge-1'') = (fridge_db, Inl EmployeeNotFound) \<and>
   session_close fridge_db tick (close_req 7 (Some 4) (Some 5)) = (fridge_db, Inl SessionNotFound) \<and>
   (\<exists>d' r. session_start fridge_db tick (start_req ''E2'' ''fridge-1'') = (d', Inr r)) \<and>
   (\<exists>d' r. session_close fridge_db tick (close_req 1 (Some 4) (Some 5)) = (d', Inr r))"
proof -
  have no: "employee_code (start_req ''E9'' ''fridge-1'')
              \<notin> emp_employee_code ` set (employees fridge_db)"
    "session_id (close_req 7 (Some 4) (Some 5)) \<notin> fs_id ` set (fridge_sessions fridge_db)"
    by (simp_all add: example_defs)
  have yes: "employee_code (start_req ''E2'' ''fridge-1'')
              \<in> emp_employee_code ` set (employees fridge_db)"
    "session_id (close_req 1 (Some 4) (Some 5)) \<in> fs_id ` set (fridge_sessions fridge_db)"
    by (simp_all add: example_defs)
  from lookup_failures[of "start_req ''E9'' ''fridge-1''" fridge_db tick
      "close_req 7 (Some 4) (Some 5)" tick]
    lookup_failures[of "start_req ''E2'' ''fridge-1''" fridge_db tick
      "close_req 1 (Some 4) (Some 5)" tick]
  show ?thesis
    unfolding if_not_P[OF no(1)] if_not_P[OF no(2)] if_P[OF yes(1)] if_P[OF yes(2)]
    by (elim conjE) (intro conjI)
qed

subsection \<open>Requests in sequence and the ledger\<close>

lemma serve_Nil: "serve d [] = d"
  by (simp add: serve_def)

lemma serve_Cons: "serve d (req # reqs) = serve (handle d req) reqs"
  by (simp add: serve_def)

lemma distinct_positive_deltas:
  "distinct (map fst B) \<Longrightarrow> distinct (map fst (positive_deltas A B))"
proof (induction B)
  case Nil
  show ?case by (simp add: positive_deltas_Nil)
next
  case (Cons x B)
  obtain l q where x: "x = (l, q)" by (cases x)
  from Cons.prems have "l \<notin> fst ` set B" and "distinct (map fst B)" by (simp_all add: x)
  moreover from positive_deltas_keys[of A B] \<open>l \<notin> fst ` set B\<close>
  have "l \<notin> fst ` set (positive_deltas A B)" by blast
  ultimately show ?case by (simp add: x positive_deltas_Cons Cons.IH)
qed

lemma labels_of_events:
  "map ce_product_label (map (event_of s clk base) (enumerate n xs)) = map fst xs"
  by (induction xs arbitrary: n) (simp_all add: event_of_def)

lemma sessions_of_events:
  "e \<in> set (map (event_of s clk base) (enumerate n xs)) \<Longrightarrow> ce_session_id e = fs_id s"
  by (auto simp: event_of_def)

text \<open>What one close request adds to the ledger.\<close>

lemma close_ledger:
  obtains new where
    "consumption_events (fst (session_close d clk p)) = consumption_events d @ new"
    "\<And>e. e \<in> set new \<Longrightarrow> ce_session_id e = session_id p"
    "distinct (map ce_product_label new)"
proof (cases "find (\<lambda>s. fs_id s = session_id p) (fridge_sessions d)")
  case None
  then have "session_close d clk p = (d, Inl SessionNotFound)" by (rule session_close_missing)
  then have "consumption_events (fst (session_close d clk p)) = consumption_events d @ []"
    by simp
  then show ?thesis by (rule that) simp_all
next
  case (Some s0)
  let ?s = "close_fields clk p s0"
  let ?new = "snd (engine d clk p ?s)"
  have id: "fs_id ?s = session_id p"
    using find_session_id[OF Some] by (simp add: fs_id_close_fields)
  have led: "consumption_events (fst (session_close d clk p)) = consumption_events d @ ?new"
    by (simp add: session_close_found[OF Some])
  show ?thesis
  proof (cases "truthy_int (capture_before_id p) \<and> truthy_int (capture_after_id p)")
    case False
    then have "?new = []" by (simp add: engine_off)
    with led show ?thesis by (intro that[of "[]"]) simp_all
  next
    case True
    then obtain b a where b: "capture_before_id p = Some b" "b \<noteq> 0"
      and a: "capture_after_id p = Some a" "a \<noteq> 0"
      using truthy_int_Some by blast
    let ?pd = "positive_deltas (capture_items (vision_items d) a)
                 (capture_items (vision_items d) b)"
    have new: "?new = map (event_of ?s clk (next_id (map ce_id (consumption_events d))))
                       (enumerate 0 ?pd)"
      by (simp only: engine_on[OF b a] snd_conv)
    have "distinct (map fst ?pd)"
      by (intro distinct_positive_deltas distinct_capture_items)
    then have dist: "distinct (map ce_product_label ?new)"
      by (simp only: new labels_of_events)
    have sess: "ce_session_id e = session_id p" if "e \<in> set ?new" for e
      using that unfolding new by (simp only: sessions_of_events id)
    from led sess dist show ?thesis by (rule that)
  qed
qed

lemma filter_distinct_key:
  "distinct (map f xs) \<Longrightarrow> length (filter (\<lambda>x. f x = k) xs) \<le> 1"
proof (induction xs)
  case Nil
  show ?case by simp
next
  case (Cons x xs)
  show ?case
  proof (cases "f x = k")
    case True
    with Cons.prems have "k \<notin> f ` set xs" by simp
    then have "filter (\<lambda>x. f x = k) xs = []"
      unfolding filter_empty_conv by blast
    with True show ?thesis by simp
  next
    case False
    with Cons show ?thesis by simp
  qed
qed

lemma ledger_entries_close:
  assumes "consumption_events d' = consumption_events d @ new"
    and "\<And>e. e \<in> set new \<Longrightarrow> ce_session_id e = sid'"
    and "distinct (map ce_product_label new)"
  shows "length (ledger_entries d' sid l) \<le>
           length (ledger_entries d sid l) + (if sid = sid' then 1 else 0)"
proof -
  have split: "ledger_entries d' sid l = ledger_entries d sid l @
      filter (\<lambda>e. ce_session_id e = sid \<and> ce_product_label e = l) new"
    by (simp add: ledger_entries_def assms(1))
  show ?thesis
  proof (cases "sid = sid'")
    case True
    have "length (filter (\<lambda>e. ce_session_id e = sid \<and> ce_product_label e = l) new)
            \<le> length (filter (\<lambda>e. ce_product_label e = l) new)"
      by (induction new) auto
    also have "\<dots> \<le> 1" using assms(3) by (rule filter_distinct_key)
    finally have "length (filter (\<lambda>e. ce_session_id e = sid \<and> ce_product_label e = l) new)
            \<le> 1" .
    with True show ?thesis unfolding split by simp
  next
    case False
    with assms(2) have "filter (\<lambda>e. ce_session_id e = sid \<and> ce_product_label e = l) new = []"
      by (auto simp: filter_empty_conv)
    with False show ?thesis by (simp add: split)
  qed
qed

lemma start_ledger: "consumption_events (fst (session_start d clk q)) = consumption_events d"
  by (cases rule: session_start_cases[of q d clk]) simp_all

lemma ledger_entries_cong:
  "consumption_events d' = consumption_events d \<Longrightarrow> ledger_entries d' sid l = ledger_entries d sid l"
  by (simp add: ledger_entries_def)

lemma ledger_entries_none:
  assumes "\<And>e. e \<in> set (consumption_events d) \<Longrightarrow> ce_session_id e \<noteq> sid"
  shows "ledger_entries d sid l = []"
  unfolding ledger_entries_def filter_empty_conv using assms by blast

lemma labels_of_entries: "map label (map entry_of xs) = map fst xs"
  by (induction xs) (simp_all add: entry_of_def)

lemma serve_ledger:
  assumes "distinct (close_ids reqs)"
    and "\<And>e. e \<in> set (consumption_events d) \<Longrightarrow> ce_session_id e \<notin> set (close_ids reqs)"
    and "\<And>sid l. length (ledger_entries d sid l) \<le> 1"
  shows "length (ledger_entries (serve d reqs) sid l) \<le> 1"
  using assms
proof (induction reqs arbitrary: d)
  case Nil
  then show ?case by (simp add: serve_Nil)
next
  case (Cons req reqs)
  show ?case
  proof (cases req)
    case (Start clk q)
    have same: "consumption_events (handle d req) = consumption_events d"
      by (simp add: Start start_ledger)
    have "length (ledger_entries (serve (handle d req) reqs) sid l) \<le> 1"
    proof (rule Cons.IH)
      show "distinct (close_ids reqs)" using Cons.prems(1) by (simp add: Start)
      show "ce_session_id e \<notin> set (close_ids reqs)"
        if "e \<in> set (consumption_events (handle d req))" for e
        using that Cons.prems(2)[of e] by (simp add: Start start_ledger)
      show "length (ledger_entries (handle d req) sid l) \<le> 1" for sid l
        using Cons.prems(3)[of sid l] by (simp add: ledger_entries_cong[OF same])
    qed
    then show ?thesis by (simp add: serve_Cons)
  next
    case (Close clk p)
    obtain new where
      led: "consumption_events (fst (session_close d clk p)) = consumption_events d @ new" and
      sess: "\<And>e. e \<in> set new \<Longrightarrow> ce_session_id e = session_id p" and
      dist: "distinct (map ce_product_label new)"
      using close_ledger[of d clk p] by blast
    have h: "handle d req = fst (session_close d clk p)" by (simp add: Close)
    from Cons.prems(1) have fresh: "session_id p \<notin> set (close_ids reqs)"
      and rest: "distinct (close_ids reqs)" by (simp_all add: Close)
    have old: "ce_session_id e \<noteq> session_id p \<and> ce_session_id e \<notin> set (close_ids reqs)"
      if "e \<in> set (consumption_events d)" for e
      using Cons.prems(2)[OF that] by (simp add: Close)
    have "length (ledger_entries (serve (handle d req) reqs) sid l) \<le> 1"
    proof (rule Cons.IH)
      show "distinct (close_ids reqs)" by (rule rest)
      show "ce_session_id e \<notin> set (close_ids reqs)"
        if "e \<in> set (consumption_events (handle d req))" for e
      proof -
        from that have "e \<in> set (consumption_events d) \<or> e \<in> set new"
          by (simp add: h led)
        then show ?thesis
        proof
          assume "e \<in> set (consumption_events d)"
          then show ?thesis using old by blast
        next
          assume "e \<in> set new"
          then have "ce_session_id e = session_id p" by (rule sess)
          with fresh show ?thesis by simp
        qed
      qed
      show "length (ledger_entries (handle d req) sid l) \<le> 1" for sid l
      proof (cases "sid = session_id p")
        case True
        have "ledger_entries d sid l = []"
          by (rule ledger_entries_none) (use old True in blast)
        with ledger_entries_close[OF led sess dist, of sid l] True
        show ?thesis by (simp add: h)
      next
        case False
        with ledger_entries_close[OF led sess dist, of sid l]
          Cons.prems(3)[of sid l]
        show ?thesis by (simp add: h)
      qed
    qed
    then show ?thesis by (simp add: serve_Cons)
  qed
qed

lemma close_returns_distinct:
  assumes "session_close d clk p = (d', Inr r)"
  shows "distinct (map label (consumed r))"
proof (cases rule: close_cases[of p d clk])
  case missing
  with assms show ?thesis by simp
next
  case (off s0 d'' r'')
  with assms show ?thesis by simp
next
  case (on s0 b a d'' r'')
  from on(6) assms have "r = r''" by simp
  moreover have "distinct (map fst (positive_deltas (capture_items (vision_items d) a)
                     (capture_items (vision_items d) b)))"
    by (intro distinct_positive_deltas distinct_capture_items)
  ultimately show ?thesis by (simp only: on(7) labels_of_entries)
qed

lemma close_appends_distinct:
  "distinct (map ce_product_label (appended d (fst (session_close d clk p))))"
proof -
  obtain new where
    led: "consumption_events (fst (session_close d clk p)) = consumption_events d @ new" and
    dist: "distinct (map ce_product_label new)"
    by (rule close_ledger)
  from led have "appended d (fst (session_close d clk p)) = new"
    by (simp add: appended_def)
  with dist show ?thesis by simp
qed

subsection \<open>C5: entries per session and label\<close>

text \<open>
  C5, as amended. One close request never returns two entries, nor writes two events,
  with the same label. Hence, after any sequence of start and close requests in which no
  session id is closed twice, run from a ledger that has at most one event for each
  (session, label) pair and none for the sessions the sequence closes, the ledger still
  has at most one event for each (session, label) pair.
\<close>

theorem one_entry_per_session_label:
  assumes "distinct (close_ids reqs)"
    and "\<forall>e \<in> set (consumption_events d). ce_session_id e \<notin> set (close_ids reqs)"
    and "\<forall>sid l. length (ledger_entries d sid l) \<le> 1"
  shows "length (ledger_entries (serve d reqs) sid l) \<le> 1 \<and>
         distinct (map ce_product_label (appended d (fst (session_close d clk p)))) \<and>
         (\<forall>r. snd (session_close d clk p) = Inr r \<longrightarrow> distinct (map label (consumed r)))"
proof (intro conjI allI impI)
  show "length (ledger_entries (serve d reqs) sid l) \<le> 1"
    using assms by (intro serve_ledger) blast+
  show "distinct (map ce_product_label (appended d (fst (session_close d clk p))))"
    by (rule close_appends_distinct)
  show "distinct (map label (consumed r))" if "snd (session_close d clk p) = Inr r" for r
  proof -
    from that have "session_close d clk p = (fst (session_close d clk p), Inr r)"
      by (metis prod.collapse)
    then show ?thesis by (rule close_returns_distinct)
  qed
qed

theorem one_entry_per_session_label_witness:
  "distinct (close_ids [Start tick (start_req ''E2'' ''fridge-1''),
                         Close tick (close_req 1 (Some 4) (Some 5))]) \<and>
   map ce_session_id (consumption_events fridge_db) = [2] \<and>
   close_ids [Start tick (start_req ''E2'' ''fridge-1''),
              Close tick (close_req 1 (Some 4) (Some 5))] = [1] \<and>
   length (ledger_entries
     (serve fridge_db [Start tick (start_req ''E2'' ''fridge-1''),
                       Close tick (close_req 1 (Some 4) (Some 5))]) 1 ''milk'') \<le> 1 \<and>
   ledger_entries
     (serve fridge_db [Start tick (start_req ''E2'' ''fridge-1''),
                       Close tick (close_req 1 (Some 4) (Some 5))]) 1 ''milk'' \<noteq> []"
proof -
  let ?reqs = "[Start tick (start_req ''E2'' ''fridge-1''),
                Close tick (close_req 1 (Some 4) (Some 5))]"
  have ids: "close_ids ?reqs = [1]" by (simp add: close_req_def)
  then have h1: "distinct (close_ids ?reqs)" by simp
  have ev: "map ce_session_id (consumption_events fridge_db) = [2]"
    by (simp add: example_defs)
  have h2: "\<forall>e \<in> set (consumption_events fridge_db). ce_session_id e \<notin> set (close_ids ?reqs)"
    unfolding ids by (simp add: example_defs)
  have h3: "\<forall>sid l. length (ledger_entries fridge_db sid l) \<le> 1"
    by (simp add: ledger_entries_def example_defs)
  have there: "ledger_entries (serve fridge_db ?reqs) 1 ''milk'' \<noteq> []"
    by (simp add: serve_def ledger_entries_def session_start_def example_defs close_defs)
  from one_entry_per_session_label[OF h1 h2 h3, of 1 "''milk''" tick "close_req 1 None None"]
  have "length (ledger_entries (serve fridge_db ?reqs) 1 ''milk'') \<le> 1" by (elim conjE)
  with h1 ev ids there show ?thesis by (intro conjI)
qed

text \<open>
  C5 as it is worded fails when a session is closed twice: two close requests for
  session 1 with captures 4 and 5 leave two milk events for session 1 in the ledger.
\<close>

theorem one_entry_per_session_label_counterexample:
  "ledger_entries fridge_db 1 ''milk'' = [] \<and>
   length (ledger_entries
     (serve fridge_db [Close tick (close_req 1 (Some 4) (Some 5)),
                       Close tick (close_req 1 (Some 4) (Some 5))]) 1 ''milk'') = 2"
  by (simp add: serve_def ledger_entries_def example_defs close_defs)

subsection \<open>C4: the status of a session\<close>

lemma update_session_nth:
  assumes "i < length rows"
  shows "update_session sid f rows ! i = (if fs_id (rows ! i) = sid then f (rows ! i) else rows ! i)"
  using assms by (simp add: update_session_def)

lemma close_sessions:
  "fridge_sessions (fst (session_close d clk p)) = fridge_sessions d \<or>
   fridge_sessions (fst (session_close d clk p)) =
     update_session (session_id p) (close_fields clk p) (fridge_sessions d)"
proof (cases "find (\<lambda>s. fs_id s = session_id p) (fridge_sessions d)")
  case None
  then show ?thesis by (simp add: session_close_missing)
next
  case (Some s0)
  then show ?thesis by (simp add: session_close_found)
qed

lemma start_sessions:
  "\<exists>new. (fridge_sessions (fst (session_start d clk q)) = fridge_sessions d \<or>
          fridge_sessions (fst (session_start d clk q)) = fridge_sessions d @ [new]) \<and>
         fs_status new = ''open''"
proof (cases rule: session_start_cases[of q d clk])
  case missing
  then show ?thesis by (intro exI[of _ "\<lparr>fs_id = 0, fs_employee_id = 0, fs_device_id = [],
    fs_opened_at = None, fs_closed_at = None, fs_capture_before_id = None,
    fs_capture_after_id = None, fs_status = ''open'', fs_notes = None\<rparr>"]) simp
next
  case (found new r)
  then show ?thesis by (intro exI[of _ new]) simp
qed

lemma handle_status:
  assumes "i < length (fridge_sessions d)"
  shows "i < length (fridge_sessions (handle d req)) \<and>
         fs_id (fridge_sessions (handle d req) ! i) = fs_id (fridge_sessions d ! i) \<and>
         (fs_status (fridge_sessions (handle d req) ! i) = fs_status (fridge_sessions d ! i) \<or>
          fs_status (fridge_sessions (handle d req) ! i) = ''closed'')"
proof (cases req)
  case (Start clk q)
  from start_sessions[of d clk q] assms show ?thesis
    by (auto simp: Start nth_append)
next
  case (Close clk p)
  from close_sessions[of d clk p] show ?thesis
  proof
    assume "fridge_sessions (fst (session_close d clk p)) = fridge_sessions d"
    with assms show ?thesis by (simp add: Close)
  next
    assume u: "fridge_sessions (fst (session_close d clk p)) =
      update_session (session_id p) (close_fields clk p) (fridge_sessions d)"
    have len: "length (update_session (session_id p) (close_fields clk p) (fridge_sessions d))
                 = length (fridge_sessions d)"
      by (simp add: update_session_def)
    from assms show ?thesis
      by (simp add: Close u len update_session_nth close_fields_def)
  qed
qed

lemma serve_status:
  assumes "i < length (fridge_sessions d)"
  shows "i < length (fridge_sessions (serve d reqs)) \<and>
         fs_id (fridge_sessions (serve d reqs) ! i) = fs_id (fridge_sessions d ! i) \<and>
         (fs_status (fridge_sessions (serve d reqs) ! i) = fs_status (fridge_sessions d ! i) \<or>
          fs_status (fridge_sessions (serve d reqs) ! i) = ''closed'')"
  using assms
proof (induction reqs arbitrary: d)
  case Nil
  then show ?case by (simp add: serve_Nil)
next
  case (Cons req reqs)
  note step = handle_status[OF Cons.prems, of req]
  from step have "i < length (fridge_sessions (handle d req))" by (elim conjE)
  note rest = Cons.IH[OF this]
  from step rest show ?case unfolding serve_Cons by metis
qed

lemma close_ids_Cons:
  "set (close_ids (req # reqs)) = set (close_ids [req]) \<union> set (close_ids reqs)"
  by (cases req) simp_all

lemma start_keeps_rows:
  "take (length (fridge_sessions d)) (fridge_sessions (fst (session_start d clk q))) =
     fridge_sessions d"
  by (cases rule: session_start_cases[of q d clk]) simp_all

lemma close_known_sessions:
  assumes "session_id p \<in> fs_id ` set (fridge_sessions d)"
  shows "fridge_sessions (fst (session_close d clk p)) =
           update_session (session_id p) (close_fields clk p) (fridge_sessions d)"
proof -
  from assms obtain s0
    where "find (\<lambda>s. fs_id s = session_id p) (fridge_sessions d) = Some s0"
    by (rule session_known)
  then show ?thesis by (simp add: session_close_found)
qed

lemma handle_status_exact:
  assumes "i < length (fridge_sessions d)"
  shows "fs_status (fridge_sessions (handle d req) ! i) =
           (if fs_id (fridge_sessions d ! i) \<in> set (close_ids [req]) then ''closed''
            else fs_status (fridge_sessions d ! i))"
proof (cases req)
  case (Start clk q)
  have "fridge_sessions (fst (session_start d clk q)) ! i =
          take (length (fridge_sessions d)) (fridge_sessions (fst (session_start d clk q))) ! i"
    using assms by simp
  then have "fridge_sessions (fst (session_start d clk q)) ! i = fridge_sessions d ! i"
    by (simp only: start_keeps_rows)
  then show ?thesis by (simp add: Start)
next
  case (Close clk p)
  show ?thesis
  proof (cases "fs_id (fridge_sessions d ! i) = session_id p")
    case True
    with assms have "session_id p \<in> fs_id ` set (fridge_sessions d)"
      by (metis imageI nth_mem)
    then have "fridge_sessions (fst (session_close d clk p)) =
           update_session (session_id p) (close_fields clk p) (fridge_sessions d)"
      by (rule close_known_sessions)
    with assms True show ?thesis
      by (simp add: Close update_session_nth close_fields_def)
  next
    case False
    from close_sessions[of d clk p]
    have "fridge_sessions (fst (session_close d clk p)) ! i = fridge_sessions d ! i"
    proof
      assume "fridge_sessions (fst (session_close d clk p)) = fridge_sessions d"
      then show ?thesis by simp
    next
      assume "fridge_sessions (fst (session_close d clk p)) =
        update_session (session_id p) (close_fields clk p) (fridge_sessions d)"
      with assms False show ?thesis by (simp add: update_session_nth)
    qed
    with False show ?thesis by (simp add: Close)
  qed
qed

lemma serve_status_exact:
  assumes "i < length (fridge_sessions d)"
  shows "fs_status (fridge_sessions (serve d reqs) ! i) =
           (if fs_id (fridge_sessions d ! i) \<in> set (close_ids reqs) then ''closed''
            else fs_status (fridge_sessions d ! i))"
  using assms
proof (induction reqs arbitrary: d)
  case Nil
  then show ?case by (simp add: serve_Nil)
next
  case (Cons req reqs)
  note step = handle_status[OF Cons.prems, of req]
  from step have len: "i < length (fridge_sessions (handle d req))"
    and id: "fs_id (fridge_sessions (handle d req) ! i) = fs_id (fridge_sessions d ! i)"
    by simp_all
  note one = handle_status_exact[OF Cons.prems, of req]
  note rest = Cons.IH[OF len]
  have "fs_status (fridge_sessions (serve (handle d req) reqs) ! i) =
          (if fs_id (fridge_sessions d ! i) \<in> set (close_ids reqs) then ''closed''
           else if fs_id (fridge_sessions d ! i) \<in> set (close_ids [req]) then ''closed''
           else fs_status (fridge_sessions d ! i))"
    by (simp only: rest id one)
  then show ?case
    by (simp only: serve_Cons close_ids_Cons[of req reqs] Un_iff) simp
qed

text \<open>
  C4, as amended. The status of an existing session is changed by nothing but a close
  request for its id: \<^verbatim>\<open>session_start\<close> leaves every existing session row as it was, and
  after any sequence of start and close requests the status of a session is
  \<^verbatim>\<open>closed\<close> when the sequence holds a close request for its id and what it was
  otherwise; so it is what it was or \<^verbatim>\<open>closed\<close>, and a closed session stays closed. A
  close request on an existing session does not look at its status: on a session that is
  already closed it succeeds as on an open one, leaves the status \<^verbatim>\<open>closed\<close>, sets
  \<^verbatim>\<open>closed_at\<close> to the time of the request and the capture ids to those of the request,
  and returns and appends to the ledger the positive deltas of its two snapshots (nothing
  when a capture id is absent or zero).
\<close>

theorem status_only_closes:
  assumes "i < length (fridge_sessions d)"
    and "session_id p = fs_id (fridge_sessions d ! i)"
  shows "i < length (fridge_sessions (serve d reqs)) \<and>
         (fs_status (fridge_sessions (serve d reqs) ! i) = fs_status (fridge_sessions d ! i) \<or>
          fs_status (fridge_sessions (serve d reqs) ! i) = ''closed'') \<and>
         fs_status (fridge_sessions (serve d reqs) ! i) =
           (if fs_id (fridge_sessions d ! i) \<in> set (close_ids reqs) then ''closed''
            else fs_status (fridge_sessions d ! i)) \<and>
         take (length (fridge_sessions d)) (fridge_sessions (fst (session_start d clk' q))) =
           fridge_sessions d \<and>
         (\<exists>d' r. session_close d clk p = (d', Inr r) \<and>
            fs_status (fridge_sessions d' ! i) = ''closed'' \<and>
            fs_closed_at (fridge_sessions d' ! i) = Some (clk 0) \<and>
            fs_capture_before_id (fridge_sessions d' ! i) = capture_before_id p \<and>
            fs_capture_after_id (fridge_sessions d' ! i) = capture_after_id p \<and>
            consumption_events d' = consumption_events d @ appended d d' \<and>
            map (\<lambda>e. (ce_product_label e, ce_quantity e)) (appended d d') =
              (if truthy_int (capture_before_id p) \<and> truthy_int (capture_after_id p)
               then positive_deltas (after_snapshot d p) (before_snapshot d p) else []) \<and>
            map (\<lambda>c. (label c, quantity c)) (consumed r) =
              (if truthy_int (capture_before_id p) \<and> truthy_int (capture_after_id p)
               then positive_deltas (after_snapshot d p) (before_snapshot d p) else []))"
proof -
  let ?rows = "update_session (session_id p) (close_fields clk p) (fridge_sessions d)"
  let ?pd = "if truthy_int (capture_before_id p) \<and> truthy_int (capture_after_id p)
             then positive_deltas (after_snapshot d p) (before_snapshot d p) else []"
  from assms have known: "session_id p \<in> fs_id ` set (fridge_sessions d)"
    by (metis imageI nth_mem)
  have row: "?rows ! i = close_fields clk p (fridge_sessions d ! i)"
    using assms by (simp add: update_session_nth)
  have closed: "fs_status (?rows ! i) = ''closed''"
    and stamp: "fs_closed_at (?rows ! i) = Some (clk 0)"
    and before: "fs_capture_before_id (?rows ! i) = capture_before_id p"
    and after: "fs_capture_after_id (?rows ! i) = capture_after_id p"
    unfolding row by (simp_all add: close_fields_def)
  have run: "\<exists>d' r. session_close d clk p = (d', Inr r) \<and>
            fridge_sessions d' = ?rows \<and>
            consumption_events d' = consumption_events d @ appended d d' \<and>
            map (\<lambda>e. (ce_product_label e, ce_quantity e)) (appended d d') = ?pd \<and>
            map (\<lambda>c. (label c, quantity c)) (consumed r) = ?pd"
  proof (cases "truthy_int (capture_before_id p) \<and> truthy_int (capture_after_id p)")
    case True
    then obtain b a where b: "capture_before_id p = Some b" "b \<noteq> 0"
      and a: "capture_after_id p = Some a" "a \<noteq> 0"
      using truthy_int_Some by blast
    from close_on[OF known b a, of clk] obtain d' r where
      1: "session_close d clk p = (d', Inr r)" and
      c: "map (\<lambda>c. (label c, quantity c)) (consumed r) =
         positive_deltas (capture_items (vision_items d) a) (capture_items (vision_items d) b)" and
      e: "map (\<lambda>e. (ce_product_label e, ce_quantity e)) (appended d d') =
         positive_deltas (capture_items (vision_items d) a) (capture_items (vision_items d) b)" and
      led: "consumption_events d' = consumption_events d @ appended d d'" and
      ses: "fridge_sessions d' = ?rows"
      by blast
    have snap: "after_snapshot d p = capture_items (vision_items d) a"
      "before_snapshot d p = capture_items (vision_items d) b"
      by (simp_all add: after_snapshot_def before_snapshot_def a b)
    show ?thesis
      unfolding if_P[OF True] snap
      using 1 ses led e c by (intro exI[of _ d'] exI[of _ r] conjI)
  next
    case False
    from close_off[OF known False, of clk] obtain d' r where
      1: "session_close d clk p = (d', Inr r)" and
      c: "consumed r = []" and e: "appended d d' = []" and
      led: "consumption_events d' = consumption_events d" and
      ses: "fridge_sessions d' = ?rows"
      by blast
    show ?thesis
      unfolding if_not_P[OF False]
      using 1 ses by (intro exI[of _ d'] exI[of _ r] conjI) (simp_all add: c e led)
  qed
  then obtain d' r where
    1: "session_close d clk p = (d', Inr r)" and
    ses: "fridge_sessions d' = ?rows" and
    led: "consumption_events d' = consumption_events d @ appended d d'" and
    e: "map (\<lambda>e. (ce_product_label e, ce_quantity e)) (appended d d') = ?pd" and
    c: "map (\<lambda>c. (label c, quantity c)) (consumed r) = ?pd"
    by (elim exE conjE) (rule that)
  have close: "\<exists>d' r. session_close d clk p = (d', Inr r) \<and>
            fs_status (fridge_sessions d' ! i) = ''closed'' \<and>
            fs_closed_at (fridge_sessions d' ! i) = Some (clk 0) \<and>
            fs_capture_before_id (fridge_sessions d' ! i) = capture_before_id p \<and>
            fs_capture_after_id (fridge_sessions d' ! i) = capture_after_id p \<and>
            consumption_events d' = consumption_events d @ appended d d' \<and>
            map (\<lambda>e. (ce_product_label e, ce_quantity e)) (appended d d') = ?pd \<and>
            map (\<lambda>c. (label c, quantity c)) (consumed r) = ?pd"
    using 1 closed[folded ses] stamp[folded ses] before[folded ses] after[folded ses] led e c
    by (intro exI[of _ d'] exI[of _ r] conjI)
  note seq = serve_status[OF assms(1), of reqs]
  from seq have len: "i < length (fridge_sessions (serve d reqs))"
    and weak: "fs_status (fridge_sessions (serve d reqs) ! i) = fs_status (fridge_sessions d ! i) \<or>
          fs_status (fridge_sessions (serve d reqs) ! i) = ''closed''"
    by simp_all
  note exact = serve_status_exact[OF assms(1), of reqs]
  note start = start_keeps_rows[of d clk' q]
  from len weak exact start close show ?thesis by (intro conjI)
qed

theorem status_only_closes_witness:
  "Suc 0 < length (fridge_sessions fridge_db) \<and>
   session_id (close_req 2 (Some 4) (Some 5)) = fs_id (fridge_sessions fridge_db ! Suc 0) \<and>
   fs_status (fridge_sessions fridge_db ! Suc 0) = ''closed'' \<and>
   fs_closed_at (fridge_sessions fridge_db ! Suc 0) = Some 30 \<and>
   fs_status (fridge_sessions
     (serve fridge_db [Close tick (close_req 2 None None),
                       Start tick (start_req ''E1'' ''fridge-1'')]) ! Suc 0) = ''closed'' \<and>
   fs_status (fridge_sessions
     (serve fridge_db [Start tick (start_req ''E1'' ''fridge-1'')]) ! Suc 0) = ''closed'' \<and>
   take 2 (fridge_sessions (fst (session_start fridge_db tick (start_req ''E1'' ''fridge-1''))))
     = fridge_sessions fridge_db \<and>
   (\<exists>d' r. session_close fridge_db tick (close_req 2 (Some 4) (Some 5)) = (d', Inr r) \<and>
      fs_status (fridge_sessions d' ! Suc 0) = ''closed'' \<and>
      fs_closed_at (fridge_sessions d' ! Suc 0) = Some 1000 \<and>
      fs_capture_before_id (fridge_sessions d' ! Suc 0) = Some 4 \<and>
      fs_capture_after_id (fridge_sessions d' ! Suc 0) = Some 5 \<and>
      map (\<lambda>e. (ce_product_label e, ce_quantity e)) (appended fridge_db d') =
        [(''milk'', 2), (''soda'', 2)])"
proof -
  let ?p = "close_req 2 (Some 4) (Some 5)"
  let ?reqs = "[Close tick (close_req 2 None None), Start tick (start_req ''E1'' ''fridge-1'')]"
  let ?only = "[Start tick (start_req ''E1'' ''fridge-1'')]"
  have h1: "Suc 0 < length (fridge_sessions fridge_db)" by (simp add: fridge_db_def)
  have h2: "session_id ?p = fs_id (fridge_sessions fridge_db ! Suc 0)"
    by (simp add: example_defs)
  have st: "fs_status (fridge_sessions fridge_db ! Suc 0) = ''closed''"
    and at: "fs_closed_at (fridge_sessions fridge_db ! Suc 0) = Some 30"
    by (simp_all add: example_defs)
  have len: "length (fridge_sessions fridge_db) = 2" by (simp add: fridge_db_def)
  have on: "truthy_int (capture_before_id ?p) \<and> truthy_int (capture_after_id ?p)"
    by (simp add: close_req_def)
  have ids: "capture_before_id ?p = Some 4" "capture_after_id ?p = Some 5"
    by (simp_all add: close_req_def)
  have t0: "tick 0 = 1000" by (simp add: tick_def)
  have pd: "positive_deltas (after_snapshot fridge_db ?p) (before_snapshot fridge_db ?p) =
            [(''milk'', 2), (''soda'', 2)]"
    by (simp add: example_defs after_snapshot_def before_snapshot_def capture_items_def
        positive_deltas_def)
  note inst = status_only_closes[OF h1 h2, of ?reqs tick "start_req ''E1'' ''fridge-1''" tick]
  note inst' = status_only_closes[OF h1 h2, of ?only tick "start_req ''E1'' ''fridge-1''" tick]
  from inst st have after: "fs_status (fridge_sessions (serve fridge_db ?reqs) ! Suc 0) = ''closed''"
    by auto
  from inst' st have after': "fs_status (fridge_sessions (serve fridge_db ?only) ! Suc 0) = ''closed''"
    by auto
  from inst have keep: "take 2 (fridge_sessions
      (fst (session_start fridge_db tick (start_req ''E1'' ''fridge-1'')))) = fridge_sessions fridge_db"
    unfolding len by (elim conjE)
  from inst[unfolded if_P[OF on] pd] obtain d' r where
    "session_close fridge_db tick ?p = (d', Inr r)"
    "fs_status (fridge_sessions d' ! Suc 0) = ''closed''"
    "fs_closed_at (fridge_sessions d' ! Suc 0) = Some 1000"
    "fs_capture_before_id (fridge_sessions d' ! Suc 0) = Some 4"
    "fs_capture_after_id (fridge_sessions d' ! Suc 0) = Some 5"
    "map (\<lambda>e. (ce_product_label e, ce_quantity e)) (appended fridge_db d') =
        [(''milk'', 2), (''soda'', 2)]"
    unfolding ids t0 by (elim exE conjE) (rule that)
  then have run: "\<exists>d' r. session_close fridge_db tick ?p = (d', Inr r) \<and>
      fs_status (fridge_sessions d' ! Suc 0) = ''closed'' \<and>
      fs_closed_at (fridge_sessions d' ! Suc 0) = Some 1000 \<and>
      fs_capture_before_id (fridge_sessions d' ! Suc 0) = Some 4 \<and>
      fs_capture_after_id (fridge_sessions d' ! Suc 0) = Some 5 \<and>
      map (\<lambda>e. (ce_product_label e, ce_quantity e)) (appended fridge_db d') =
        [(''milk'', 2), (''soda'', 2)]"
    by (intro exI[of _ d'] exI[of _ r] conjI)
  from h1 h2 st at after after' keep run show ?thesis by (intro conjI)
qed

text \<open>
  C4 as it is worded fails: session 2 of the example database is closed, and a close
  request for it succeeds, returns two entries and appends two events to the ledger.
\<close>

theorem status_only_closes_counterexample:
  "map fs_status (fridge_sessions fridge_db) = [''open'', ''closed''] \<and>
   session_id (close_req 2 (Some 4) (Some 5)) = 2 \<and>
   snd (session_close fridge_db tick (close_req 2 (Some 4) (Some 5))) =
     Inr \<lparr>scr_success = True, scr_session_id = 2,
          consumed = [\<lparr>label = ''milk'', quantity = 2\<rparr>, \<lparr>label = ''soda'', quantity = 2\<rparr>]\<rparr> \<and>
   length (consumption_events fridge_db) = 1 \<and>
   length (consumption_events
     (fst (session_close fridge_db tick (close_req 2 (Some 4) (Some 5))))) = 3"
  by (simp add: example_defs close_defs)

subsection \<open>C9: the session list\<close>

lemma mset_insort_desc: "mset (insort_desc f x xs) = add_mset x (mset xs)"
  by (induction xs) simp_all

lemma mset_order_by_desc: "mset (order_by_desc f xs) = mset xs"
  unfolding order_by_desc_def by (induction xs) (simp_all add: mset_insort_desc)

lemma set_insort_desc: "set (insort_desc f x xs) = insert x (set xs)"
  by (metis mset_insort_desc set_mset_add_mset_insert set_mset_mset)

lemma sorted_insort_desc:
  "sorted_wrt (\<lambda>a b. f b \<le> f a) xs \<Longrightarrow> sorted_wrt (\<lambda>a b. f b \<le> f a) (insort_desc f x xs)"
proof (induction xs)
  case Nil
  show ?case by simp
next
  case (Cons y ys)
  show ?case
  proof (cases "f y \<le> f x")
    case True
    with Cons.prems show ?thesis by (auto intro: order_trans)
  next
    case False
    then have "f x \<le> f y" by simp
    with Cons show ?thesis by (auto simp: set_insort_desc)
  qed
qed

lemma sorted_order_by_desc: "sorted_wrt (\<lambda>a b. f b \<le> f a) (order_by_desc f xs)"
  unfolding order_by_desc_def by (induction xs) (simp_all add: sorted_insort_desc)

lemma unique_employee:
  assumes "distinct (map emp_id es)" and "k \<in> emp_id ` set es"
  obtains e where "filter (\<lambda>e. k = emp_id e) es = [e]" "e \<in> set es" "emp_id e = k"
  using assms
proof (induction es arbitrary: thesis)
  case Nil
  then show ?case by simp
next
  case (Cons x es)
  show ?case
  proof (cases "k = emp_id x")
    case True
    with Cons.prems(2) have "k \<notin> emp_id ` set es" by simp
    then have "filter (\<lambda>e. k = emp_id e) es = []"
      unfolding filter_empty_conv by blast
    with True have "filter (\<lambda>e. k = emp_id e) (x # es) = [x]" by simp
    then show ?thesis using True by (intro Cons.prems(1)[of x]) simp_all
  next
    case False
    with Cons.prems have "distinct (map emp_id es)" and "k \<in> emp_id ` set es" by simp_all
    then obtain e where e: "filter (\<lambda>e. k = emp_id e) es = [e]" "e \<in> set es" "emp_id e = k"
      using Cons.IH by blast
    with False show ?thesis by (intro Cons.prems(1)[of e]) simp_all
  qed
qed

lemma join_filter:
  assumes "distinct (map emp_id es)" and "fs_employee_id ` set rows \<subseteq> emp_id ` set es"
  shows "map fst (filter (\<lambda>(s, c, n). P c)
           (concat (map (\<lambda>s. map (\<lambda>e. (s, emp_employee_code e, emp_name e))
                                 (filter (\<lambda>e. fs_employee_id s = emp_id e) es)) rows))) =
         filter (\<lambda>s. list_ex (\<lambda>e. emp_id e = fs_employee_id s \<and> P (emp_employee_code e)) es) rows"
  using assms(2)
proof (induction rows)
  case Nil
  show ?case by simp
next
  case (Cons s rows)
  from Cons.prems have known: "fs_employee_id s \<in> emp_id ` set es"
    and sub: "fs_employee_id ` set rows \<subseteq> emp_id ` set es" by simp_all
  from unique_employee[OF assms(1) known] obtain e where
    one: "filter (\<lambda>e. fs_employee_id s = emp_id e) es = [e]" and
    mem: "e \<in> set es" and id: "emp_id e = fs_employee_id s"
    by blast
  have "list_ex (\<lambda>e'. emp_id e' = fs_employee_id s \<and> P (emp_employee_code e')) es
          = P (emp_employee_code e)"
  proof
    assume "list_ex (\<lambda>e'. emp_id e' = fs_employee_id s \<and> P (emp_employee_code e')) es"
    then obtain e' where e': "e' \<in> set es" "emp_id e' = fs_employee_id s"
      "P (emp_employee_code e')"
      unfolding list_ex_iff by blast
    then have "e' \<in> set (filter (\<lambda>e. fs_employee_id s = emp_id e) es)" by simp
    then have "e' = e" unfolding one by simp
    with e'(3) show "P (emp_employee_code e)" by simp
  next
    assume "P (emp_employee_code e)"
    with mem id show "list_ex (\<lambda>e'. emp_id e' = fs_employee_id s \<and> P (emp_employee_code e')) es"
      unfolding list_ex_iff by blast
  qed
  then show ?case by (simp add: one Cons.IH[OF sub])
qed

lemma join_all:
  assumes "distinct (map emp_id es)" and "fs_employee_id ` set rows \<subseteq> emp_id ` set es"
  shows "map fst (concat (map (\<lambda>s. map (\<lambda>e. (s, emp_employee_code e, emp_name e))
                                 (filter (\<lambda>e. fs_employee_id s = emp_id e) es)) rows)) = rows"
proof -
  have ex: "\<exists>e\<in>set es. emp_id e = fs_employee_id s \<and> True" if "s \<in> set rows" for s
  proof -
    from that assms(2) have "fs_employee_id s \<in> emp_id ` set es" by blast
    then obtain e where "e \<in> set es" "fs_employee_id s = emp_id e" by (rule imageE)
    then show ?thesis by (intro bexI[of _ e]) simp_all
  qed
  have "filter (\<lambda>s. list_ex (\<lambda>e. emp_id e = fs_employee_id s \<and> True) es) rows = rows"
    unfolding filter_id_conv list_ex_iff using ex by blast
  with join_filter[OF assms, of "\<lambda>c. True"] show ?thesis by simp
qed

lemma joined_members:
  assumes "row \<in> set (joined d)"
  shows "\<exists>s \<in> set (fridge_sessions d). \<exists>e \<in> set (employees d).
           emp_id e = fs_employee_id s \<and> row = (s, emp_employee_code e, emp_name e)"
proof -
  from assms obtain s where s: "s \<in> set (fridge_sessions d)"
    and "row \<in> set (map (\<lambda>e. (s, emp_employee_code e, emp_name e))
                      (filter (\<lambda>e. fs_employee_id s = emp_id e) (employees d)))"
    unfolding joined_def by auto
  then obtain e where e: "e \<in> set (employees d)" "fs_employee_id s = emp_id e"
    and row: "row = (s, emp_employee_code e, emp_name e)"
    by auto
  from s e row show ?thesis by (intro bexI[of _ s] bexI[of _ e]) simp_all
qed

lemma li_id_list_item: "li_id (list_item row) = fs_id (fst row)"
  by (cases row) (simp add: list_item_def)

lemma li_opened_at_list_item: "li_opened_at (list_item row) = fs_opened_at (fst row)"
  by (cases row) (simp add: list_item_def)

text \<open>The rows \<^verbatim>\<open>sessions_list\<close> selects, before they are ordered.\<close>

lemma sessions_list_eq:
  "sessions_list d code =
     map list_item (order_by_desc (\<lambda>row. fs_opened_at (fst row))
       (if truthy_str code then filter (\<lambda>(s, c, n). Some c = code) (joined d) else joined d))"
proof -
  have key: "(\<lambda>(s, c, n). fs_opened_at s) = (\<lambda>row. fs_opened_at (fst row))"
    by (simp add: fun_eq_iff)
  show ?thesis unfolding sessions_list_def Let_def key by (rule refl)
qed

text \<open>
  C9, as amended. In a database where employee ids are distinct and every session refers
  to an employee (the primary and foreign key of the schema), \<^verbatim>\<open>sessions_list\<close> returns
  the sessions, each once, ordered by \<^verbatim>\<open>opened_at\<close> descending (a session without
  \<^verbatim>\<open>opened_at\<close> last), every item carrying the code and name of the employee of its
  session: all the sessions when the argument is absent or the empty string, and those of
  the employees with that code when the argument is a non-empty string.
\<close>

theorem sessions_list_ordered:
  assumes "distinct (map emp_id (employees d))"
    and "fs_employee_id ` set (fridge_sessions d) \<subseteq> emp_id ` set (employees d)"
  shows "sorted_wrt (\<lambda>x y. li_opened_at y \<le> li_opened_at x) (sessions_list d code) \<and>
         mset (map li_id (sessions_list d code)) =
           mset (map fs_id (filter (keeps d code) (fridge_sessions d))) \<and>
         (\<forall>x \<in> set (sessions_list d code).
            \<exists>s \<in> set (fridge_sessions d). \<exists>e \<in> set (employees d).
              emp_id e = fs_employee_id s \<and> x = list_item (s, emp_employee_code e, emp_name e))"
proof (intro conjI ballI)
  let ?key = "\<lambda>row :: fridge_session \<times> string \<times> string. fs_opened_at (fst row)"
  let ?Q = "if truthy_str code then filter (\<lambda>(s, c, n). Some c = code) (joined d) else joined d"
  have eq: "sessions_list d code = map list_item (order_by_desc ?key ?Q)"
    by (rule sessions_list_eq)
  have "sorted_wrt (\<lambda>a b. ?key b \<le> ?key a) (order_by_desc ?key ?Q)"
    by (rule sorted_order_by_desc)
  then show "sorted_wrt (\<lambda>x y. li_opened_at y \<le> li_opened_at x) (sessions_list d code)"
    unfolding eq sorted_wrt_map li_opened_at_list_item .
  have rows: "map fst ?Q = filter (keeps d code) (fridge_sessions d)"
  proof (cases "truthy_str code")
    case True
    have "map fst (filter (\<lambda>(s, c, n). Some c = code) (joined d)) =
      filter (\<lambda>s. list_ex (\<lambda>e. emp_id e = fs_employee_id s \<and> Some (emp_employee_code e) = code)
                (employees d)) (fridge_sessions d)"
      unfolding joined_def by (rule join_filter[OF assms])
    with True show ?thesis by (simp add: keeps_def[abs_def])
  next
    case False
    have "map fst (joined d) = fridge_sessions d"
      unfolding joined_def by (rule join_all[OF assms])
    with False show ?thesis by (simp add: keeps_def[abs_def])
  qed
  have "mset (map li_id (sessions_list d code)) =
          image_mset (\<lambda>row. fs_id (fst row)) (mset (order_by_desc ?key ?Q))"
    unfolding eq by (simp add: li_id_list_item comp_def)
  also have "\<dots> = mset (map fs_id (map fst ?Q))"
    unfolding mset_order_by_desc by (simp add: comp_def)
  finally show "mset (map li_id (sessions_list d code)) =
           mset (map fs_id (filter (keeps d code) (fridge_sessions d)))"
    unfolding rows .
  fix x assume "x \<in> set (sessions_list d code)"
  then obtain row where "row \<in> set (order_by_desc ?key ?Q)" and x: "x = list_item row"
    unfolding eq by auto
  then have "row \<in> set ?Q" by (metis mset_order_by_desc set_mset_mset)
  then have "row \<in> set (joined d)" by (simp split: if_splits)
  from joined_members[OF this] x
  show "\<exists>s \<in> set (fridge_sessions d). \<exists>e \<in> set (employees d).
          emp_id e = fs_employee_id s \<and> x = list_item (s, emp_employee_code e, emp_name e)"
    by blast
qed

theorem sessions_list_ordered_witness:
  "distinct (map emp_id (employees fridge_db)) \<and>
   fs_employee_id ` set (fridge_sessions fridge_db) \<subseteq> emp_id ` set (employees fridge_db) \<and>
   map fs_opened_at (fridge_sessions fridge_db) = [Some 10, Some 20] \<and>
   sorted_wrt (\<lambda>x y. li_opened_at y \<le> li_opened_at x) (sessions_list fridge_db None) \<and>
   map li_id (sessions_list fridge_db None) = [2, 1] \<and>
   mset (map li_id (sessions_list fridge_db (Some ''E1''))) = {#1#} \<and>
   map li_employee_code (sessions_list fridge_db (Some ''E1'')) = [''E1'']"
proof -
  have h1: "distinct (map emp_id (employees fridge_db))" by (simp add: example_defs)
  have h2: "fs_employee_id ` set (fridge_sessions fridge_db) \<subseteq> emp_id ` set (employees fridge_db)"
    by (simp add: example_defs)
  have o: "map fs_opened_at (fridge_sessions fridge_db) = [Some 10, Some 20]"
    by (simp add: example_defs)
  have k: "filter (keeps fridge_db (Some ''E1'')) (fridge_sessions fridge_db) = [open_session]"
    by (simp add: keeps_def example_defs)
  have ids: "map li_id (sessions_list fridge_db None) = [2, 1]"
    by (simp add: sessions_list_def joined_def order_by_desc_def list_item_def example_defs)
  have codes: "map li_employee_code (sessions_list fridge_db (Some ''E1'')) = [''E1'']"
    by (simp add: sessions_list_def joined_def order_by_desc_def list_item_def example_defs)
  from sessions_list_ordered[OF h1 h2, of None]
  have s: "sorted_wrt (\<lambda>x y. li_opened_at y \<le> li_opened_at x) (sessions_list fridge_db None)"
    by (elim conjE)
  from sessions_list_ordered[OF h1 h2, of "Some ''E1''"]
  have m: "mset (map li_id (sessions_list fridge_db (Some ''E1''))) = {#1#}"
    unfolding k by (simp add: open_session_def)
  from h1 h2 o s ids m codes show ?thesis by (intro conjI)
qed

text \<open>
  C9 as it is worded fails when the argument is given and is the empty string: no
  employee has the code \<open>''''\<close>, and the list holds the sessions of E2 and of E1.
\<close>

theorem sessions_list_ordered_counterexample:
  "map emp_employee_code (employees fridge_db) = [''E1'', ''E2''] \<and>
   map li_id (sessions_list fridge_db (Some [])) = [2, 1] \<and>
   map li_employee_code (sessions_list fridge_db (Some [])) = [''E2'', ''E1'']"
  by (simp add: sessions_list_def joined_def order_by_desc_def list_item_def example_defs)

end
